theory Spec2Isabelle
  imports Main "HOL-Library.Word" "HOL-Library.Sublist" "HOL-Library.AList"
begin

unbundle bit_operations_syntax

section \<open>Data model of conn.go\<close>

type_synonym byte = "8 word"
type_synonym int32 = "32 word"
type_synonym int64 = "64 word"

text \<open>Go's \<open>int\<close> on the 64-bit targets the client is built for; arithmetic wraps.\<close>
type_synonym go_int = "64 word"

text \<open>
  Modelled from the spec: the server error codes of the protocol's response record
  (the generated message file is not part of the sources at hand). Only \<open>ErrRange\<close>
  ("out of range") and \<open>ErrNoEnt\<close> ("no such entry") are inspected by conn.go.
\<close>
datatype response_Err = ErrRange | ErrNoEnt | ErrCodeOther nat

text \<open>
  Go \<open>error\<close> values. \<open>Error code detail\<close> is a pointer to the structured error
  \<open>Error{Err, Detail}\<close> (the only dynamic type for which \<open>err.(*Error)\<close> succeeds),
  \<open>CodeErr\<close> is a bare server code used as an error (\<open>return nil, ErrNoEnt\<close> in
  Statinfo), \<open>EOF\<close> and \<open>ErrUnexpectedEOF\<close> are those of package io, and
  \<open>ErrOther\<close> is any other error of the codec or the transport.
\<close>
datatype error =
    ErrInvalidUri
  | ErrClosed
  | EOF
  | ErrUnexpectedEOF
  | CodeErr response_Err
  | Error response_Err string
  | ErrOther string

text \<open>A Go call either returns or panics (the string names the runtime error).\<close>
datatype 'a go = Ret 'a | Panic string

datatype verb = request_GET | request_SET | request_DEL | request_REV | request_WAIT
  | request_NOP | request_WALK | request_GETDIR | request_STAT | request_ACCESS

text \<open>The request and response records of the protocol; a nil pointer field is \<open>None\<close>.\<close>
record request =
  rq_Tag :: "int32 option"
  rq_Verb :: "verb option"
  rq_Path :: "string option"
  rq_Value :: "byte list"
  rq_Rev :: "int64 option"
  rq_Offset :: "int32 option"

record response =
  rs_Tag :: "int32 option"
  rs_Flags :: "int32 option"
  rs_Rev :: "int64 option"
  rs_Path :: "string option"
  rs_Value :: "byte list"
  rs_Len :: "int32 option"
  rs_ErrCode :: "response_Err option"
  rs_ErrDetail :: "string option"

text \<open>\<open>type txn struct\<close>; \<open>t_done\<close> counts the values sent on the channel \<open>done\<close>.\<close>
record txn =
  t_req :: request
  t_resp :: "response option"
  t_err :: "error option"
  t_done :: nat

section \<open>Frame codec: \<open>read\<close> and \<open>write\<close>\<close>

text \<open>
  The read side of \<open>net.Conn\<close>: the bytes that still arrive, and the error the
  connection reports once they are used up (\<open>EOF\<close> for an orderly close).
\<close>
record instream =
  avail :: "byte list"
  fin :: error

text \<open>
  \<open>io.ReadFull\<close> for a buffer of \<open>k\<close> bytes: no read at all for an empty buffer,
  \<open>EOF\<close> becomes \<open>ErrUnexpectedEOF\<close> after a partial read.
\<close>
definition ReadFull :: "instream \<Rightarrow> nat \<Rightarrow> (error + byte list) \<times> instream" where
  "ReadFull s k =
     (if k = 0 then (Inr [], s)
      else if k \<le> length (avail s) then (Inr (take k (avail s)), s\<lparr>avail := drop k (avail s)\<rparr>)
      else (Inl (if avail s \<noteq> [] \<and> fin s = EOF then ErrUnexpectedEOF else fin s),
            s\<lparr>avail := []\<rparr>))"

text \<open>\<open>binary.BigEndian\<close> on four bytes.\<close>
definition PutUint32 :: "int32 \<Rightarrow> byte list" where
  "PutUint32 v = [ucast (drop_bit 24 v), ucast (drop_bit 16 v), ucast (drop_bit 8 v), ucast v]"

definition Uint32 :: "byte list \<Rightarrow> int32" where
  "Uint32 b = ucast (b ! 3) OR push_bit 8 (ucast (b ! 2)) OR push_bit 16 (ucast (b ! 1))
                OR push_bit 24 (ucast (b ! 0))"

text \<open>\<open>func (c *Conn) read() ([]byte, error)\<close>\<close>
definition read :: "instream \<Rightarrow> ((error + byte list) \<times> instream) go" where
  "read s =
     (case ReadFull s 4 of
        (Inl e, s1) \<Rightarrow> Ret (Inl e, s1)
      | (Inr hdr, s1) \<Rightarrow>
          (let size = Uint32 hdr in
           if sint size < 0 then Panic ''makeslice: len out of range''
           else (case ReadFull s1 (nat (sint size)) of
                   (Inl e, s2) \<Rightarrow> Ret (Inl e, s2)
                 | (Inr buf, s2) \<Rightarrow> Ret (Inr buf, s2))))"

text \<open>
  The write side of \<open>net.Conn\<close>: the bytes written so far and the results of the
  coming \<open>Write\<close> calls, one per call (none left: the call succeeds). The bytes of a
  failed \<open>Write\<close> are not recorded.
\<close>
record outstream =
  out :: "byte list"
  wres :: "error option list"

definition Write :: "outstream \<Rightarrow> byte list \<Rightarrow> error option \<times> outstream" where
  "Write s b =
     (case wres s of
        [] \<Rightarrow> (None, s\<lparr>out := out s @ b\<rparr>)
      | None # rs \<Rightarrow> (None, s\<lparr>out := out s @ b, wres := rs\<rparr>)
      | Some e # rs \<Rightarrow> (Some e, s\<lparr>wres := rs\<rparr>))"

text \<open>\<open>func (c *Conn) write(buf []byte) error\<close>; \<open>int32(len(buf))\<close> truncates.\<close>
definition "write" :: "outstream \<Rightarrow> byte list \<Rightarrow> error option \<times> outstream" where
  "write s buf =
     (case Write s (PutUint32 (of_nat (length buf))) of
        (Some e, s1) \<Rightarrow> (Some e, s1)
      | (None, s1) \<Rightarrow> Write s1 buf)"

section \<open>The connection handle and \<open>call\<close>\<close>

text \<open>
  \<open>type Conn struct\<close> as the multiplexer and the callers share it: \<open>c_conn\<close> is the
  write side of the stream, \<open>c_closed\<close> counts the calls of \<open>c.conn.Close()\<close>,
  \<open>c_stop\<close> is the number of values buffered in \<open>stop\<close> (capacity one) and
  \<open>c_stopped\<close> says that the channel \<open>stopped\<close> is closed. The channels \<open>send\<close>
  and \<open>msg\<close> are unbuffered and hold nothing.
\<close>
record Conn =
  c_addr :: string
  c_conn :: outstream
  c_closed :: nat
  c_err :: "error option"
  c_stop :: nat
  c_stopped :: bool

text \<open>
  What a caller meets at its \<open>k\<close>-th call on a connection: the handle as it is when
  the \<open>select\<close> of \<open>call\<close> commits, and what the multiplexer and the server do
  to a transaction they are sent, up to the value on \<open>done\<close>.
\<close>
type_synonym world = "nat \<Rightarrow> Conn \<times> (txn \<Rightarrow> txn)"

text \<open>A caller's view of a \<open>*Conn\<close>: the connection's world and the calls made so far.\<close>
record handle =
  h_addr :: string
  h_world :: world
  h_calls :: nat

text \<open>
  Modelled from the spec: \<open>newError\<close> is not in conn.go; a response with a non-nil
  error code "is decoded into a structured error" carrying the code and its detail.
\<close>
definition newError :: "txn \<Rightarrow> error go" where
  "newError t =
     (case t_resp t of
        None \<Rightarrow> Panic ''nil pointer dereference''
      | Some r \<Rightarrow>
          (case rs_ErrCode r of
             None \<Rightarrow> Panic ''nil pointer dereference''
           | Some code \<Rightarrow> Ret (Error code (case rs_ErrDetail r of None \<Rightarrow> [] | Some d \<Rightarrow> d))))"

text \<open>
  \<open>func (c *Conn) call(t *txn) error\<close>. Once \<open>stopped\<close> is closed the multiplexer has
  returned and nothing receives from \<open>send\<close>, so only the first case can run; before
  that the transaction goes to the multiplexer. The transaction is returned with the
  error, since the callers read \<open>t.resp\<close> afterwards.
\<close>
definition call :: "handle \<Rightarrow> txn \<Rightarrow> ((error option \<times> txn) \<times> handle) go" where
  "call h t0 =
     (let (c, mx) = h_world h (h_calls h);
          h' = h\<lparr>h_calls := Suc (h_calls h)\<rparr>;
          t = t0\<lparr>t_done := 0\<rparr>
      in if c_stopped c then Ret ((c_err c, t), h')
         else (let t' = mx t in
               if t_err t' \<noteq> None then Ret ((t_err t', t'), h')
               else (case t_resp t' of
                       None \<Rightarrow> Panic ''nil pointer dereference''
                     | Some r \<Rightarrow>
                         if rs_ErrCode r \<noteq> None
                         then (case newError t' of
                                 Panic s \<Rightarrow> Panic s
                               | Ret e \<Rightarrow> Ret ((Some e, t'), h'))
                         else Ret ((None, t'), h'))))"

text \<open>\<open>func (c *Conn) Close()\<close>: a send on \<open>stop\<close> that is dropped when the buffer is full.\<close>
definition Close :: "Conn \<Rightarrow> Conn" where
  "Close c = (if c_stop c < 1 then c\<lparr>c_stop := c_stop c + 1\<rparr> else c)"

text \<open>The zero values \<open>var t txn\<close> and the request an operation fills in.\<close>
definition request0 :: request where
  "request0 = \<lparr>rq_Tag = None, rq_Verb = None, rq_Path = None, rq_Value = [],
                rq_Rev = None, rq_Offset = None\<rparr>"

definition txn0 :: txn where
  "txn0 = \<lparr>t_req = request0, t_resp = None, t_err = None, t_done = 0\<rparr>"

text \<open>\<open>err, ok := err.(*Error); ok && err.Err == code\<close>\<close>
fun is_Error :: "error option \<Rightarrow> response_Err \<Rightarrow> bool" where
  "is_Error (Some (Error c d)) code = (c = code)"
| "is_Error _ code = False"

text \<open>Reading through a pointer field of the response.\<close>
definition deref :: "'a option \<Rightarrow> 'a go" where
  "deref p = (case p of None \<Rightarrow> Panic ''nil pointer dereference'' | Some v \<Rightarrow> Ret v)"

section \<open>Client operations\<close>

record FileInfo =
  fi_Name :: string
  fi_Len :: go_int
  fi_Rev :: int64
  fi_IsSet :: bool
  fi_IsDir :: bool

record Event =
  ev_Rev :: int64
  ev_Path :: string
  ev_Body :: "byte list"
  ev_Flag :: int32

text \<open>
  Declarations of the package that conn.go uses and that lie in its other files: the
  sentinel revisions \<open>missing\<close> and \<open>dir\<close>, the flag bits \<open>set\<close> and \<open>del\<close>, and
  \<open>basename\<close>. They are parameters of the operations that use them.
\<close>
record decls =
  missing :: int64
  dir :: int64
  flag_set :: int32
  flag_del :: int32
  basename :: "string \<Rightarrow> string"

definition FileInfo0 :: FileInfo where
  "FileInfo0 = \<lparr>fi_Name = [], fi_Len = 0, fi_Rev = 0, fi_IsSet = False, fi_IsDir = False\<rparr>"

text \<open>\<open>[]byte(token)\<close> and \<open>string(body)\<close>\<close>
definition bytes_of :: "string \<Rightarrow> byte list" where
  "bytes_of s = map (\<lambda>c. of_nat (of_char c)) s"

definition string_of :: "byte list \<Rightarrow> string" where
  "string_of b = map (\<lambda>x. char_of (unat x)) b"

text \<open>\<open>func (c *Conn) Access(token string) error\<close>\<close>
definition Access :: "handle \<Rightarrow> string \<Rightarrow> (error option \<times> handle) go" where
  "Access h token =
     (case call h (txn0\<lparr>t_req := request0\<lparr>rq_Verb := Some request_ACCESS,
                                              rq_Value := bytes_of token\<rparr>\<rparr>) of
        Panic s \<Rightarrow> Panic s
      | Ret ((e, t), h') \<Rightarrow> Ret (e, h'))"

text \<open>\<open>func (c *Conn) Rev() (int64, error)\<close>\<close>
definition Rev :: "handle \<Rightarrow> ((int64 \<times> error option) \<times> handle) go" where
  "Rev h =
     (case call h (txn0\<lparr>t_req := request0\<lparr>rq_Verb := Some request_REV\<rparr>\<rparr>) of
        Panic s \<Rightarrow> Panic s
      | Ret ((Some e, t), h') \<Rightarrow> Ret ((0, Some e), h')
      | Ret ((None, t), h') \<Rightarrow>
          (case deref (t_resp t) of
             Panic s \<Rightarrow> Panic s
           | Ret r \<Rightarrow>
               (case deref (rs_Rev r) of
                  Panic s \<Rightarrow> Panic s
                | Ret v \<Rightarrow> Ret ((v, None), h'))))"

text \<open>\<open>func (c *Conn) Get(file string, rev *int64) ([]byte, int64, error)\<close>\<close>
definition Get :: "handle \<Rightarrow> string \<Rightarrow> int64 option
    \<Rightarrow> ((byte list \<times> int64 \<times> error option) \<times> handle) go" where
  "Get h file rv =
     (case call h (txn0\<lparr>t_req := request0\<lparr>rq_Verb := Some request_GET, rq_Path := Some file,
                                              rq_Rev := rv\<rparr>\<rparr>) of
        Panic s \<Rightarrow> Panic s
      | Ret ((Some e, t), h') \<Rightarrow> Ret (([], 0, Some e), h')
      | Ret ((None, t), h') \<Rightarrow>
          (case deref (t_resp t) of
             Panic s \<Rightarrow> Panic s
           | Ret r \<Rightarrow>
               (case deref (rs_Rev r) of
                  Panic s \<Rightarrow> Panic s
                | Ret v \<Rightarrow> Ret ((rs_Value r, v, None), h'))))"

text \<open>
  \<open>func (c *Conn) Stat(path string, storeRev *int64) (len int, fileRev int64, err error)\<close>;
  \<open>int(*t.resp.Len)\<close> extends the sign.
\<close>
definition Stat :: "handle \<Rightarrow> string \<Rightarrow> int64 option
    \<Rightarrow> ((go_int \<times> int64 \<times> error option) \<times> handle) go" where
  "Stat h path storeRev =
     (case call h (txn0\<lparr>t_req := request0\<lparr>rq_Verb := Some request_STAT, rq_Path := Some path,
                                              rq_Rev := storeRev\<rparr>\<rparr>) of
        Panic s \<Rightarrow> Panic s
      | Ret ((Some e, t), h') \<Rightarrow> Ret ((0, 0, Some e), h')
      | Ret ((None, t), h') \<Rightarrow>
          (case deref (t_resp t) of
             Panic s \<Rightarrow> Panic s
           | Ret r \<Rightarrow>
               (case deref (rs_Len r) of
                  Panic s \<Rightarrow> Panic s
                | Ret l \<Rightarrow>
                    (case deref (rs_Rev r) of
                       Panic s \<Rightarrow> Panic s
                     | Ret v \<Rightarrow> Ret ((scast l, v, None), h')))))"

text \<open>
  \<open>func (c *Conn) Statinfo(rev int64, path string) (f *FileInfo, err error)\<close>; the
  result is the pointer \<open>f\<close> (\<open>None\<close> for nil) and the error.
\<close>
definition Statinfo :: "decls \<Rightarrow> handle \<Rightarrow> int64 \<Rightarrow> string
    \<Rightarrow> ((FileInfo option \<times> error option) \<times> handle) go" where
  "Statinfo d h rv path =
     (case Stat h path (Some rv) of
        Panic s \<Rightarrow> Panic s
      | Ret ((l, frev, Some e), h') \<Rightarrow> Ret ((None, Some e), h')
      | Ret ((l, frev, None), h') \<Rightarrow>
          if frev = missing d then Ret ((None, Some (CodeErr ErrNoEnt)), h')
          else Ret ((Some \<lparr>fi_Name = basename d path, fi_Len = l, fi_Rev = frev,
                             fi_IsSet = True, fi_IsDir = (frev = dir d)\<rparr>, None), h'))"

text \<open>
  The transaction that a turn of the loop of \<open>Getdir\<close> builds; \<open>int32(off)\<close> keeps the
  low 32 bits of the offset.
\<close>
definition Getdir_txn :: "string \<Rightarrow> int64 \<Rightarrow> go_int \<Rightarrow> txn" where
  "Getdir_txn dirname rv off =
     txn0\<lparr>t_req := request0\<lparr>rq_Verb := Some request_GETDIR, rq_Rev := Some rv,
                                 rq_Path := Some dirname, rq_Offset := Some (ucast off)\<rparr>\<rparr>"

text \<open>
  \<open>func (c *Conn) Getdir(dir string, rev int64, off, lim int) (names []string, err error)\<close>:
  the loop, with the result \<open>names\<close> as accumulated so far; \<open>lim--\<close> wraps.
\<close>
function Getdir_loop :: "handle \<Rightarrow> string \<Rightarrow> int64 \<Rightarrow> go_int \<Rightarrow> go_int \<Rightarrow> string list
    \<Rightarrow> ((string list \<times> error option) \<times> handle) go" where
  "Getdir_loop h dirname rv off lim names =
     (if lim \<noteq> 0 then
        (case call h (Getdir_txn dirname rv off) of
           Panic s \<Rightarrow> Panic s
         | Ret ((e, t), h') \<Rightarrow>
             if is_Error e ErrRange then Ret ((names, None), h')
             else if e \<noteq> None then Ret (([], e), h')
             else (case deref (t_resp t) of
                     Panic s \<Rightarrow> Panic s
                   | Ret r \<Rightarrow>
                       (case deref (rs_Path r) of
                          Panic s \<Rightarrow> Panic s
                        | Ret p \<Rightarrow> Getdir_loop h' dirname rv (off + 1) (lim - 1) (names @ [p]))))
      else Ret ((names, None), h))"
  by pat_completeness auto
termination
proof (relation "measure (\<lambda>(h, dirname, rv, off, lim, names). unat lim)")
  show "wf (measure (\<lambda>(h, dirname, rv, off, lim, names). unat lim))" by simp
next
  fix lim :: go_int and h dirname rv off names x2 x1 h' e t x2a x2b
  assume "lim \<noteq> 0"
  then have "unat (lim - 1) < unat lim"
    by (simp add: unat_minus_one unat_gt_0)
  then show "((h', dirname, rv, off + 1, lim - 1, names @ [x2b]), h, dirname, rv, off, lim, names)
      \<in> measure (\<lambda>(h, dirname, rv, off, lim, names). unat lim)"
    by simp
qed

declare Getdir_loop.simps [simp del]

definition Getdir :: "handle \<Rightarrow> string \<Rightarrow> int64 \<Rightarrow> go_int \<Rightarrow> go_int
    \<Rightarrow> ((string list \<times> error option) \<times> handle) go" where
  "Getdir h dirname rv off lim = Getdir_loop h dirname rv off lim []"

text \<open>The transaction that a turn of the loop of \<open>Walk\<close> builds.\<close>
definition Walk_txn :: "string \<Rightarrow> int64 \<Rightarrow> go_int \<Rightarrow> txn" where
  "Walk_txn glob rv off =
     txn0\<lparr>t_req := request0\<lparr>rq_Verb := Some request_WALK, rq_Rev := Some rv,
                                 rq_Path := Some glob, rq_Offset := Some (ucast off)\<rparr>\<rparr>"

text \<open>
  \<open>func (c *Conn) Walk(glob string, rev int64, off, lim int) (info []Event, err error)\<close>
\<close>
function Walk_loop :: "handle \<Rightarrow> string \<Rightarrow> int64 \<Rightarrow> go_int \<Rightarrow> go_int \<Rightarrow> Event list
    \<Rightarrow> ((Event list \<times> error option) \<times> handle) go" where
  "Walk_loop h glob rv off lim info =
     (if lim \<noteq> 0 then
        (case call h (Walk_txn glob rv off) of
           Panic s \<Rightarrow> Panic s
         | Ret ((e, t), h') \<Rightarrow>
             if is_Error e ErrRange then Ret ((info, None), h')
             else if e \<noteq> None then Ret (([], e), h')
             else (case deref (t_resp t) of
                     Panic s \<Rightarrow> Panic s
                   | Ret r \<Rightarrow>
                       (case deref (rs_Rev r) of
                          Panic s \<Rightarrow> Panic s
                        | Ret v \<Rightarrow>
                            (case deref (rs_Path r) of
                               Panic s \<Rightarrow> Panic s
                             | Ret p \<Rightarrow>
                                 (case deref (rs_Flags r) of
                                    Panic s \<Rightarrow> Panic s
                                  | Ret f \<Rightarrow>
                                      Walk_loop h' glob rv (off + 1) (lim - 1)
                                        (info @ [\<lparr>ev_Rev = v, ev_Path = p, ev_Body = rs_Value r,
                                                   ev_Flag = f\<rparr>]))))))
      else Ret ((info, None), h))"
  by pat_completeness auto
termination
proof (relation "measure (\<lambda>(h, glob, rv, off, lim, info). unat lim)")
  show "wf (measure (\<lambda>(h, glob, rv, off, lim, info). unat lim))" by simp
next
  fix lim :: go_int and h glob rv off info h' ev
  assume "lim \<noteq> 0"
  then have "unat (lim - 1) < unat lim"
    by (simp add: unat_minus_one unat_gt_0)
  then show "((h', glob, rv, off + 1, lim - 1, info @ [ev]), h, glob, rv, off, lim, info)
      \<in> measure (\<lambda>(h, glob, rv, off, lim, info). unat lim)"
    by simp
qed

declare Walk_loop.simps [simp del]

definition Walk :: "handle \<Rightarrow> string \<Rightarrow> int64 \<Rightarrow> go_int \<Rightarrow> go_int
    \<Rightarrow> ((Event list \<times> error option) \<times> handle) go" where
  "Walk h glob rv off lim = Walk_loop h glob rv off lim []"

text \<open>\<open>func (c *Conn) Wait(glob string, rev int64) (ev Event, err error)\<close>\<close>
definition Event0 :: Event where
  "Event0 = \<lparr>ev_Rev = 0, ev_Path = [], ev_Body = [], ev_Flag = 0\<rparr>"

definition Wait_txn :: "string \<Rightarrow> int64 \<Rightarrow> txn" where
  "Wait_txn glob rv =
     txn0\<lparr>t_req := request0\<lparr>rq_Verb := Some request_WAIT, rq_Path := Some glob,
                                 rq_Rev := Some rv\<rparr>\<rparr>"

definition Wait :: "decls \<Rightarrow> handle \<Rightarrow> string \<Rightarrow> int64 \<Rightarrow> ((Event \<times> error option) \<times> handle) go" where
  "Wait d h glob rv =
     (case call h (Wait_txn glob rv) of
        Panic s \<Rightarrow> Panic s
      | Ret ((Some e, t), h') \<Rightarrow> Ret ((Event0, Some e), h')
      | Ret ((None, t), h') \<Rightarrow>
          (case deref (t_resp t) of
             Panic s \<Rightarrow> Panic s
           | Ret r \<Rightarrow>
               (case deref (rs_Rev r) of
                  Panic s \<Rightarrow> Panic s
                | Ret v \<Rightarrow>
                    (case deref (rs_Path r) of
                       Panic s \<Rightarrow> Panic s
                     | Ret p \<Rightarrow>
                         (case deref (rs_Flags r) of
                            Panic s \<Rightarrow> Panic s
                          | Ret f \<Rightarrow>
                              Ret ((\<lparr>ev_Rev = v, ev_Path = p, ev_Body = rs_Value r,
                                     ev_Flag = f AND (flag_set d OR flag_del d)\<rparr>, None), h'))))))"

text \<open>
  \<open>func (c *Conn) Getdirinfo(dir string, rev int64, off, lim int) (a []FileInfo, err error)\<close>.
  The loop over \<open>names\<close> assigns the named result \<open>err\<close> at every entry; \<open>i\<close> is
  the index of the entry at hand.
\<close>
fun Getdirinfo_loop :: "decls \<Rightarrow> handle \<Rightarrow> int64 \<Rightarrow> string \<Rightarrow> nat \<Rightarrow> string list
    \<Rightarrow> FileInfo list \<Rightarrow> error option \<Rightarrow> ((FileInfo list \<times> error option) \<times> handle) go" where
  "Getdirinfo_loop d h rv dirname i [] a e = Ret ((a, e), h)"
| "Getdirinfo_loop d h rv dirname i (name # names) a e =
     (case Statinfo d h rv (dirname @ name) of
        Panic s \<Rightarrow> Panic s
      | Ret ((fp, e'), h') \<Rightarrow>
          if e' \<noteq> None
          then Getdirinfo_loop d h' rv dirname (Suc i) names (a[i := (a ! i)\<lparr>fi_Name := name\<rparr>]) e'
          else (case deref fp of
                  Panic s \<Rightarrow> Panic s
                | Ret f \<Rightarrow> Getdirinfo_loop d h' rv dirname (Suc i) names (a[i := f]) e'))"

definition Getdirinfo :: "decls \<Rightarrow> handle \<Rightarrow> string \<Rightarrow> int64 \<Rightarrow> go_int \<Rightarrow> go_int
    \<Rightarrow> ((FileInfo list \<times> error option) \<times> handle) go" where
  "Getdirinfo d h dirname rv off lim =
     (case Getdir h dirname rv off lim of
        Panic s \<Rightarrow> Panic s
      | Ret ((names, Some e), h') \<Rightarrow> Ret (([], Some e), h')
      | Ret ((names, None), h') \<Rightarrow>
          Getdirinfo_loop d h' rv (if dirname \<noteq> ''/'' then dirname @ ''/'' else dirname) 0 names
            (replicate (length names) FileInfo0) None)"

section \<open>Cluster resolution: \<open>lookup\<close>, \<open>dial\<close> and \<open>dialUri\<close>\<close>

definition uriPrefix :: string where
  "uriPrefix = ''doozer:?''"

text \<open>\<open>err.(*Error)\<close>: the structured error behind the interface value, if it is one.\<close>
fun assert_Error :: "error option \<Rightarrow> (response_Err \<times> string) option" where
  "assert_Error (Some (Error c d)) = Some (c, d)"
| "assert_Error _ = None"

text \<open>The loop of \<open>lookup\<close> over the names of the directory.\<close>
fun lookup_loop :: "handle \<Rightarrow> string \<Rightarrow> int64 \<Rightarrow> string list \<Rightarrow> string list
    \<Rightarrow> ((string list \<times> error option) \<times> handle) go" where
  "lookup_loop b path rv [] as = Ret ((as, None), b)"
| "lookup_loop b path rv (name # names) as =
     (case Get b (path @ name) (Some rv) of
        Panic s \<Rightarrow> Panic s
      | Ret ((body, r, Some e), b') \<Rightarrow> Ret (([], Some e), b')
      | Ret ((body, r, None), b') \<Rightarrow> lookup_loop b' path rv names (as @ [string_of body]))"

text \<open>
  \<open>func lookup(b *Conn, name string) (as []string, err error)\<close>. In the
  \<open>else if err != nil\<close> the name \<open>err\<close> is the \<open>*Error\<close> of the type assertion, which
  is nil for every error of another type.
\<close>
definition lookup :: "handle \<Rightarrow> string \<Rightarrow> ((string list \<times> error option) \<times> handle) go" where
  "lookup b name =
     (case Rev b of
        Panic s \<Rightarrow> Panic s
      | Ret ((rv, Some e), b1) \<Rightarrow> Ret (([], Some e), b1)
      | Ret ((rv, None), b1) \<Rightarrow>
          (case Getdir b1 (''/ctl/ns/'' @ name) rv 0 (- 1) of
             Panic s \<Rightarrow> Panic s
           | Ret ((names, e), b2) \<Rightarrow>
               (case assert_Error e of
                  Some (c, dt) \<Rightarrow>
                    if c = ErrNoEnt then Ret (([], None), b2) else Ret (([], e), b2)
                | None \<Rightarrow> lookup_loop b2 (''/ctl/ns/'' @ name @ ''/'') rv names [])))"

text \<open>
  \<open>func dial(addr string, net_dial func(addr string) (net.Conn, error)) (*Conn, error)\<close>:
  what \<open>net_dial\<close> connects to decides the world of the new handle.
\<close>
definition dial :: "string \<Rightarrow> (string \<Rightarrow> error + world) \<Rightarrow> error + handle" where
  "dial a net_dial =
     (case net_dial a of
        Inl e \<Rightarrow> Inl e
      | Inr w \<Rightarrow> Inr \<lparr>h_addr = a, h_world = w, h_calls = 0\<rparr>)"

text \<open>
  The end of \<open>dialUri\<close>, from \<open>dial(addrs[rand.Int()%len(addrs)], net_dial)\<close> on;
  \<open>r\<close> is the value of \<open>rand.Int()\<close>, and \<open>cl\<close> lists the addresses of the handles on
  which \<open>Close\<close> has been called.
\<close>
definition dialUri_pick :: "(string \<times> string list) list \<Rightarrow> string list \<Rightarrow> nat
    \<Rightarrow> (string \<Rightarrow> error + world) \<Rightarrow> string list \<Rightarrow> ((error + handle) \<times> string list) go" where
  "dialUri_pick p addrs r net_dial cl =
     (if length addrs = 0 then Panic ''integer divide by zero''
      else (case dial (addrs ! (r mod length addrs)) net_dial of
              Inl e \<Rightarrow> Ret (Inl e, cl)
            | Inr c \<Rightarrow>
                (case map_of p ''sk'' of
                   None \<Rightarrow> Ret (Inr c, cl)
                 | Some secret \<Rightarrow>
                     (case secret of
                        [] \<Rightarrow> Panic ''index out of range''
                      | s0 # _ \<Rightarrow>
                          (case Access c s0 of
                             Panic s \<Rightarrow> Panic s
                           | Ret (Some e, c') \<Rightarrow> Ret (Inl e, cl @ [h_addr c'])
                           | Ret (None, c') \<Rightarrow> Ret (Inr c', cl))))))"

text \<open>The \<open>else\<close> branch of \<open>dialUri\<close>: the addresses of the query itself.\<close>
definition dialUri_ca :: "(string \<times> string list) list \<Rightarrow> nat
    \<Rightarrow> (string \<Rightarrow> error + world) \<Rightarrow> ((error + handle) \<times> string list) go" where
  "dialUri_ca p r net_dial =
     (case map_of p ''ca'' of
        None \<Rightarrow> Ret (Inl ErrInvalidUri, [])
      | Some addrs \<Rightarrow> dialUri_pick p addrs r net_dial [])"

text \<open>
  \<open>func dialUri(uri, buri string, net_dial ...) (*Conn, error)\<close>. \<open>ParseQuery\<close> is
  \<open>url.ParseQuery\<close>, and \<open>rnd i\<close> is the \<open>i\<close>-th value \<open>rand.Int()\<close> returns: a
  bootstrap dial that returned a connection has drawn the first.
\<close>
function dialUri :: "(string \<Rightarrow> error + (string \<times> string list) list) \<Rightarrow> (nat \<Rightarrow> nat)
    \<Rightarrow> string \<Rightarrow> string \<Rightarrow> (string \<Rightarrow> error + world) \<Rightarrow> ((error + handle) \<times> string list) go" where
  "dialUri ParseQuery rnd uri buri net_dial =
     (if \<not> prefix uriPrefix uri then Ret (Inl ErrInvalidUri, [])
      else (case ParseQuery (drop (length uriPrefix) uri) of
              Inl e \<Rightarrow> Ret (Inl e, [])
            | Inr p \<Rightarrow>
                (case map_of p ''cn'' of
                   None \<Rightarrow> dialUri_ca p (rnd 0) net_dial
                 | Some name \<Rightarrow>
                     if buri \<noteq> [] then
                       (case dialUri ParseQuery rnd buri [] net_dial of
                          Panic s \<Rightarrow> Panic s
                        | Ret (Inl e, cl) \<Rightarrow> Ret (Inl e, cl)
                        | Ret (Inr c, cl) \<Rightarrow>
                            (case name of
                               [] \<Rightarrow> Panic ''index out of range''
                             | n0 # _ \<Rightarrow>
                                 (case lookup c n0 of
                                    Panic s \<Rightarrow> Panic s
                                  | Ret ((addrs, Some e), c') \<Rightarrow> Ret (Inl e, cl)
                                  | Ret ((addrs, None), c') \<Rightarrow>
                                      dialUri_pick p addrs (rnd 1) net_dial cl)))
                     else dialUri_ca p (rnd 0) net_dial)))"
  by pat_completeness auto
termination
  by (relation "measure (\<lambda>(ParseQuery, rnd, uri, buri, net_dial). length buri)") auto

declare dialUri.simps [simp del]

section \<open>The multiplexer\<close>

text \<open>
  \<open>txns := make(map[int32]*txn)\<close>: the keys of the Go map in a list without repetition,
  each with its pointer (\<open>None\<close> is a nil pointer stored under the key). A pointer is
  the address of a transaction in the store \<open>m_heap\<close>, which the callers share with
  the multiplexer.
\<close>
type_synonym tag_table = "(int32 \<times> nat option) list"

text \<open>\<open>txns[k]\<close> reads nil for a key that is absent.\<close>
definition table_get :: "tag_table \<Rightarrow> int32 \<Rightarrow> nat option" where
  "table_get txns k = (case map_of txns k of None \<Rightarrow> None | Some v \<Rightarrow> v)"

record mux_state =
  m_c :: Conn
  m_txns :: tag_table
  m_n :: int32
  m_err :: "error option"
  m_heap :: "nat \<Rightarrow> txn"
  m_log :: nat

text \<open>The case that the \<open>select\<close> of the loop runs, with the value received.\<close>
datatype event = case_send nat | case_msg "byte list" | case_errch error | case_stop

text \<open>
  Where the goroutine is: in its loop, returned, stopped by a panic (which ends the
  program), or caught in the search for a tag.
\<close>
datatype sys = Running mux_state | Exited mux_state | Panicked string | Spinning mux_state

text \<open>
  \<open>for t := txns[n]; t != nil; t = txns[n] { n++ }\<close>: the search goes on from the
  last value of \<open>n\<close>, which wraps, and does not end when every tag is taken.
\<close>
partial_function (option) mux_find_tag :: "tag_table \<Rightarrow> int32 \<Rightarrow> int32 option" where
  "mux_find_tag txns n =
     (if table_get txns n \<noteq> None then mux_find_tag txns (n + 1) else Some n)"

text \<open>\<open>for _, t := range txns { t.err = err; t.done <- true }\<close>\<close>
fun mux_fail_all :: "tag_table \<Rightarrow> error option \<Rightarrow> (nat \<Rightarrow> txn) \<Rightarrow> (nat \<Rightarrow> txn) go" where
  "mux_fail_all [] e hp = Ret hp"
| "mux_fail_all ((k, None) # r) e hp = Panic ''nil pointer dereference''"
| "mux_fail_all ((k, Some p) # r) e hp =
     mux_fail_all r e (hp(p := (hp p)\<lparr>t_err := e, t_done := t_done (hp p) + 1\<rparr>))"

text \<open>The code after the label \<open>error:\<close>; closing a closed channel panics.\<close>
definition mux_error :: "mux_state \<Rightarrow> sys" where
  "mux_error s =
     (let c1 = (m_c s)\<lparr>c_err := m_err s\<rparr> in
      case mux_fail_all (m_txns s) (m_err s) (m_heap s) of
        Panic msg \<Rightarrow> Panicked msg
      | Ret hp \<Rightarrow>
          if c_stopped c1 then Panicked ''close of closed channel''
          else Exited (s\<lparr>m_c := c1\<lparr>c_closed := c_closed c1 + 1, c_stopped := True\<rparr>,
                         m_heap := hp\<rparr>))"

text \<open>\<open>case t := <-c.send\<close>; \<open>Marshal\<close> is \<open>proto.Marshal\<close>.\<close>
definition mux_send :: "(request \<Rightarrow> error + byte list) \<Rightarrow> mux_state \<Rightarrow> nat \<Rightarrow> sys" where
  "mux_send Marshal s p =
     (case mux_find_tag (m_txns s) (m_n s) of
        None \<Rightarrow> Spinning s
      | Some n \<Rightarrow>
          (let txns1 = AList.update n (Some p) (m_txns s);
               hp1 = (m_heap s)(p := (m_heap s p)\<lparr>t_req := (t_req (m_heap s p))\<lparr>rq_Tag := Some n\<rparr>\<rparr>)
           in case Marshal (t_req (hp1 p)) of
                Inl e \<Rightarrow>
                  Running (s\<lparr>m_txns := AList.update n None txns1, m_n := n, m_err := Some e,
                             m_heap := hp1(p := (hp1 p)\<lparr>t_err := Some e,
                                                          t_done := t_done (hp1 p) + 1\<rparr>)\<rparr>)
              | Inr buf \<Rightarrow>
                  (case write (c_conn (m_c s)) buf of
                     (None, o1) \<Rightarrow>
                       Running (s\<lparr>m_c := (m_c s)\<lparr>c_conn := o1\<rparr>, m_txns := txns1, m_n := n,
                                  m_err := None, m_heap := hp1\<rparr>)
                   | (Some e, o1) \<Rightarrow>
                       mux_error (s\<lparr>m_c := (m_c s)\<lparr>c_conn := o1\<rparr>, m_txns := txns1, m_n := n,
                                    m_err := Some e, m_heap := hp1\<rparr>))))"

text \<open>\<open>case buf := <-c.msg\<close>; \<open>Unmarshal\<close> is \<open>proto.Unmarshal\<close>.\<close>
definition mux_msg :: "(byte list \<Rightarrow> error + response) \<Rightarrow> mux_state \<Rightarrow> byte list \<Rightarrow> sys" where
  "mux_msg Unmarshal s buf =
     (case Unmarshal buf of
        Inl e \<Rightarrow> Running (s\<lparr>m_err := Some e, m_log := m_log s + 1\<rparr>)
      | Inr r \<Rightarrow>
          (case rs_Tag r of
             None \<Rightarrow> Running (s\<lparr>m_err := None, m_log := m_log s + 1\<rparr>)
           | Some tg \<Rightarrow>
               (case table_get (m_txns s) tg of
                  None \<Rightarrow> Running (s\<lparr>m_err := None, m_log := m_log s + 1\<rparr>)
                | Some p \<Rightarrow>
                    Running (s\<lparr>m_err := None, m_txns := AList.delete tg (m_txns s),
                               m_heap := (m_heap s)(p := (m_heap s p)\<lparr>t_resp := Some r,
                                              t_done := t_done (m_heap s p) + 1\<rparr>)\<rparr>))))"

text \<open>
  One turn of the loop of \<open>mux\<close>. A receive from \<open>stop\<close> is ready only when a value is
  buffered there; a case that is not ready is not run.
\<close>
definition mux_step :: "(request \<Rightarrow> error + byte list) \<Rightarrow> (byte list \<Rightarrow> error + response)
    \<Rightarrow> mux_state \<Rightarrow> event \<Rightarrow> sys" where
  "mux_step Marshal Unmarshal s ev =
     (case ev of
        case_send p \<Rightarrow> mux_send Marshal s p
      | case_msg buf \<Rightarrow> mux_msg Unmarshal s buf
      | case_errch e \<Rightarrow> mux_error (s\<lparr>m_err := Some e\<rparr>)
      | case_stop \<Rightarrow>
          if c_stop (m_c s) = 0 then Running s
          else mux_error (s\<lparr>m_c := (m_c s)\<lparr>c_stop := c_stop (m_c s) - 1\<rparr>,
                            m_err := Some ErrClosed\<rparr>))"

text \<open>What the connection goes through: a caller's \<open>Close\<close>, or a turn of the multiplexer.\<close>
datatype action = act_Close | act_mux event

definition sys_step :: "(request \<Rightarrow> error + byte list) \<Rightarrow> (byte list \<Rightarrow> error + response)
    \<Rightarrow> sys \<Rightarrow> action \<Rightarrow> sys" where
  "sys_step Marshal Unmarshal y a =
     (case a of
        act_Close \<Rightarrow>
          (case y of
             Running s \<Rightarrow> Running (s\<lparr>m_c := Close (m_c s)\<rparr>)
           | Exited s \<Rightarrow> Exited (s\<lparr>m_c := Close (m_c s)\<rparr>)
           | Spinning s \<Rightarrow> Spinning (s\<lparr>m_c := Close (m_c s)\<rparr>)
           | Panicked msg \<Rightarrow> Panicked msg)
      | act_mux ev \<Rightarrow>
          (case y of
             Running s \<Rightarrow> mux_step Marshal Unmarshal s ev
           | _ \<Rightarrow> y))"

text \<open>
  \<open>func (c *Conn) mux(errch chan error)\<close> on a handle fresh from \<open>dial\<close>, with the
  actions of the callers in between.
\<close>
definition mux_init :: "Conn \<Rightarrow> (nat \<Rightarrow> txn) \<Rightarrow> mux_state" where
  "mux_init c hp = \<lparr>m_c = c, m_txns = [], m_n = 0, m_err = None, m_heap = hp, m_log = 0\<rparr>"

definition Conn0 :: "string \<Rightarrow> Conn" where
  "Conn0 a = \<lparr>c_addr = a, c_conn = \<lparr>out = [], wres = []\<rparr>, c_closed = 0, c_err = None,
               c_stop = 0, c_stopped = False\<rparr>"

definition mux :: "(request \<Rightarrow> error + byte list) \<Rightarrow> (byte list \<Rightarrow> error + response)
    \<Rightarrow> sys \<Rightarrow> action list \<Rightarrow> sys" where
  "mux Marshal Unmarshal y as = foldl (sys_step Marshal Unmarshal) y as"

section \<open>Observations and example inputs\<close>

text \<open>The unsigned value of a sequence of bytes, most significant first.\<close>
definition be_val :: "byte list \<Rightarrow> nat" where
  "be_val bs = foldl (\<lambda>a b. a * 256 + unat b) 0 bs"

text \<open>
  Declarations with the flag bits 4 and 8 and the final segment of a path as its
  base name, and a server that answers every request.
\<close>
definition last_segment :: "string \<Rightarrow> string" where
  "last_segment p = rev (takeWhile (\<lambda>c. c \<noteq> CHR ''/'') (rev p))"

definition ex_decls :: decls where
  "ex_decls = \<lparr>missing = 0, dir = - 2, flag_set = 4, flag_del = 8, basename = last_segment\<rparr>"

definition ok_resp :: response where
  "ok_resp = \<lparr>rs_Tag = None, rs_Flags = Some 255, rs_Rev = Some 7, rs_Path = Some ''/a'',
              rs_Value = [1], rs_Len = Some 1, rs_ErrCode = None, rs_ErrDetail = None\<rparr>"

text \<open>The multiplexer delivers the response \<open>r\<close> and signals \<open>done\<close>.\<close>
definition answer :: "response \<Rightarrow> txn \<Rightarrow> txn" where
  "answer r t = t\<lparr>t_resp := Some r, t_done := t_done t + 1\<rparr>"

definition ok_world :: world where
  "ok_world k = (Conn0 ''a:1'', answer ok_resp)"

definition ok_handle :: handle where
  "ok_handle = \<lparr>h_addr = ''a:1'', h_world = ok_world, h_calls = 0\<rparr>"

text \<open>
  What a call brings back: the response of a call that returns no error, and the error
  of a call that returns one.
\<close>
definition reply :: "handle \<Rightarrow> txn \<Rightarrow> response option" where
  "reply h t = (case call h t of Ret ((None, t'), h') \<Rightarrow> t_resp t' | _ \<Rightarrow> None)"

definition failure :: "handle \<Rightarrow> txn \<Rightarrow> error option" where
  "failure h t = (case call h t of Ret ((Some e, t'), h') \<Rightarrow> Some e | _ \<Rightarrow> None)"

text \<open>The handle after \<open>i\<close> more calls.\<close>
definition later :: "handle \<Rightarrow> nat \<Rightarrow> handle" where
  "later h i = h\<lparr>h_calls := h_calls h + i\<rparr>"

text \<open>The event that \<open>Walk\<close> builds from a response in which the pointers it reads are set.\<close>
definition Event_of :: "response \<Rightarrow> Event option" where
  "Event_of r =
     (case (rs_Rev r, rs_Path r, rs_Flags r) of
        (Some v, Some p, Some f) \<Rightarrow> Some \<lparr>ev_Rev = v, ev_Path = p, ev_Body = rs_Value r, ev_Flag = f\<rparr>
      | _ \<Rightarrow> None)"

text \<open>
  A server that holds the entries \<open>ents\<close> of a directory and answers the request for
  the offset \<open>o\<close> with the entry there; \<open>after\<close> is what a request past the end gets.
\<close>
definition dir_server :: "string list \<Rightarrow> (txn \<Rightarrow> txn) \<Rightarrow> txn \<Rightarrow> txn" where
  "dir_server ents after t =
     (case rq_Offset (t_req t) of
        None \<Rightarrow> after t
      | Some off \<Rightarrow>
          if unat off < length ents then answer (ok_resp\<lparr>rs_Path := Some (ents ! unat off)\<rparr>) t
          else after t)"

definition out_of_range :: "txn \<Rightarrow> txn" where
  "out_of_range = answer (ok_resp\<lparr>rs_ErrCode := Some ErrRange\<rparr>)"

text \<open>The multiplexer fails the transaction with the error of the transport.\<close>
definition broken :: "txn \<Rightarrow> txn" where
  "broken t = t\<lparr>t_err := Some (ErrOther ''broken pipe''), t_done := t_done t + 1\<rparr>"

definition dir_handle :: "string list \<Rightarrow> (txn \<Rightarrow> txn) \<Rightarrow> handle" where
  "dir_handle ents after =
     \<lparr>h_addr = ''a:1'', h_world = (\<lambda>k. (Conn0 ''a:1'', dir_server ents after)), h_calls = 0\<rparr>"

text \<open>The event of the entry \<open>p\<close> of that server.\<close>
definition ev_at :: "string \<Rightarrow> Event" where
  "ev_at p = \<lparr>ev_Rev = 7, ev_Path = p, ev_Body = [1], ev_Flag = 255\<rparr>"

text \<open>
  A server with the directory \<open>/d\<close> of entries \<open>ents\<close>, in which the entry \<open>bad\<close> is
  gone when it is asked for its metadata.
\<close>
definition info_server :: "string list \<Rightarrow> string \<Rightarrow> txn \<Rightarrow> txn" where
  "info_server ents bad t =
     (if rq_Verb (t_req t) = Some request_STAT
      then (if rq_Path (t_req t) = Some (''/d/'' @ bad)
            then answer (ok_resp\<lparr>rs_ErrCode := Some ErrNoEnt\<rparr>) t
            else answer (ok_resp\<lparr>rs_Rev := Some 5, rs_Len := Some 9\<rparr>) t)
      else dir_server ents out_of_range t)"

definition info_handle :: "string list \<Rightarrow> string \<Rightarrow> handle" where
  "info_handle ents bad =
     \<lparr>h_addr = ''a:1'', h_world = (\<lambda>k. (Conn0 ''a:1'', info_server ents bad)), h_calls = 0\<rparr>"

text \<open>The values that an operation returns, without the handle.\<close>
definition returned :: "('a \<times> handle) go \<Rightarrow> 'a option" where
  "returned x = (case x of Ret (v, h) \<Rightarrow> Some v | Panic s \<Rightarrow> None)"

text \<open>A connection that has been closed: \<open>stopped\<close> is closed and the error is recorded.\<close>
definition closed_handle :: handle where
  "closed_handle =
     \<lparr>h_addr = ''a:1'',
      h_world = (\<lambda>k. ((Conn0 ''a:1'')\<lparr>c_err := Some ErrClosed, c_stopped := True\<rparr>, answer ok_resp)),
      h_calls = 0\<rparr>"

text \<open>
  A bootstrap server that knows the revision and has no directory for the cluster, the
  two query strings of the example, and a generator that returns 0.
\<close>
definition noent_server :: "txn \<Rightarrow> txn" where
  "noent_server t =
     (if rq_Verb (t_req t) = Some request_REV then answer ok_resp t
      else answer (ok_resp\<lparr>rs_ErrCode := Some ErrNoEnt\<rparr>) t)"

definition noent_dial :: "string \<Rightarrow> error + world" where
  "noent_dial a = Inr (\<lambda>k. (Conn0 a, noent_server))"

definition ex_ParseQuery :: "string \<Rightarrow> error + (string \<times> string list) list" where
  "ex_ParseQuery q =
     (if q = ''cn=foo'' then Inr [(''cn'', [''foo''])]
      else if q = ''ca=a:1'' then Inr [(''ca'', [''a:1''])]
      else Inl (ErrOther ''invalid query''))"

definition no_rand :: "nat \<Rightarrow> nat" where
  "no_rand i = 0"

definition noent_handle :: handle where
  "noent_handle = \<lparr>h_addr = ''a:1'', h_world = (\<lambda>k. (Conn0 ''a:1'', noent_server)), h_calls = 0\<rparr>"

text \<open>What can be seen of the multiplexer and its connection, wherever the goroutine is.\<close>
definition sys_state :: "sys \<Rightarrow> mux_state option" where
  "sys_state y =
     (case y of Running s \<Rightarrow> Some s | Exited s \<Rightarrow> Some s | Spinning s \<Rightarrow> Some s
      | Panicked msg \<Rightarrow> None)"

definition running :: "sys \<Rightarrow> bool" where
  "running y = (case y of Running s \<Rightarrow> True | _ \<Rightarrow> False)"

definition exited :: "sys \<Rightarrow> bool" where
  "exited y = (case y of Exited s \<Rightarrow> True | _ \<Rightarrow> False)"

text \<open>The tag table, the tag stamped on the transaction at \<open>p\<close>, and that transaction.\<close>
definition table_of :: "sys \<Rightarrow> tag_table" where
  "table_of y = (case sys_state y of Some s \<Rightarrow> m_txns s | None \<Rightarrow> [])"

definition txn_of :: "sys \<Rightarrow> nat \<Rightarrow> txn option" where
  "txn_of y p = (case sys_state y of Some s \<Rightarrow> Some (m_heap s p) | None \<Rightarrow> None)"

definition tag_of :: "sys \<Rightarrow> nat \<Rightarrow> int32 option" where
  "tag_of y p = (case txn_of y p of Some t \<Rightarrow> rq_Tag (t_req t) | None \<Rightarrow> None)"

text \<open>
  How often the stream has been closed, whether \<open>stopped\<close> is closed, the error on the
  handle and the values waiting in \<open>stop\<close>.
\<close>
definition closes :: "sys \<Rightarrow> nat" where
  "closes y = (case sys_state y of Some s \<Rightarrow> c_closed (m_c s) | None \<Rightarrow> 0)"

definition stopped_of :: "sys \<Rightarrow> bool" where
  "stopped_of y = (case sys_state y of Some s \<Rightarrow> c_stopped (m_c s) | None \<Rightarrow> False)"

definition err_of :: "sys \<Rightarrow> error option" where
  "err_of y = (case sys_state y of Some s \<Rightarrow> c_err (m_c s) | None \<Rightarrow> None)"

definition stop_of :: "sys \<Rightarrow> nat" where
  "stop_of y = (case sys_state y of Some s \<Rightarrow> c_stop (m_c s) | None \<Rightarrow> 0)"

text \<open>
  A codec that encodes every request, one that encodes none, and a decoder that takes
  the tag of the response from the first byte of the frame.
\<close>
definition ok_Marshal :: "request \<Rightarrow> error + byte list" where
  "ok_Marshal r = Inr [1]"

definition bad_Marshal :: "request \<Rightarrow> error + byte list" where
  "bad_Marshal r = Inl (ErrOther ''marshal'')"

definition tag_Unmarshal :: "byte list \<Rightarrow> error + response" where
  "tag_Unmarshal buf =
     (case buf of
        [] \<Rightarrow> Inl (ErrOther ''unmarshal'')
      | b # bs \<Rightarrow> Inr (ok_resp\<lparr>rs_Tag := Some (ucast b)\<rparr>))"

text \<open>The multiplexer of a connection fresh from \<open>dial\<close>.\<close>
definition fresh :: sys where
  "fresh = Running (mux_init (Conn0 ''a:1'') (\<lambda>p. txn0))"

text \<open>A multiplexer that holds one transaction under the tag 1, the tag it assigned last.\<close>
definition busy :: mux_state where
  "busy = \<lparr>m_c = Conn0 ''a:1'', m_txns = [(1, Some 1)], m_n = 1, m_err = None,
           m_heap = (\<lambda>p. txn0), m_log = 0\<rparr>"

text \<open>
  The state of a connection as the goroutine of the multiplexer runs or has returned:
  at most one value waits in \<open>stop\<close>; the stream is open and \<open>stopped\<close> is open while
  the goroutine runs; after it has returned the stream has been closed once, \<open>stopped\<close>
  is closed and an error is recorded.
\<close>
definition conn_inv :: "sys \<Rightarrow> bool" where
  "conn_inv y =
     (stop_of y \<le> 1 \<and>
      (case y of
         Running s \<Rightarrow> c_closed (m_c s) = 0 \<and> \<not> c_stopped (m_c s)
       | Spinning s \<Rightarrow> c_closed (m_c s) = 0 \<and> \<not> c_stopped (m_c s)
       | Exited s \<Rightarrow> c_closed (m_c s) = 1 \<and> c_stopped (m_c s) \<and> c_err (m_c s) \<noteq> None
       | Panicked msg \<Rightarrow> True))"

section \<open>Properties\<close>

subsection \<open>Frame codec\<close>

lemma shift_byte: "(x::nat) div (2 ^ (k + 8)) * 256 + x div 2 ^ k mod 256 = x div 2 ^ k"
proof -
  have "x div 2 ^ (k + 8) = x div 2 ^ k div 256"
    by (simp add: power_add div_mult2_eq)
  then show ?thesis by simp
qed

lemma unat_byte_of: "unat (ucast (drop_bit k (v::int32)) :: byte) = unat v div 2 ^ k mod 256"
  by (simp add: unsigned_ucast_eq unat_drop_bit_eq take_bit_eq_mod drop_bit_nat_def)

lemma be_val_PutUint32: "be_val (PutUint32 v) = unat v"
proof -
  define x where "x = unat v"
  have lt: "x < 2 ^ 32" unfolding x_def using unsigned_less [of v] by simp
  have e3: "x div 2 ^ 24 mod 256 = x div 2 ^ 24"
    using lt by (simp add: less_mult_imp_div_less)
  have e2: "x div 2 ^ 24 * 256 + x div 2 ^ 16 mod 256 = x div 2 ^ 16"
    using shift_byte [of x 16] by simp
  have e1: "x div 2 ^ 16 * 256 + x div 2 ^ 8 mod 256 = x div 2 ^ 8"
    using shift_byte [of x 8] by simp
  have e0: "x div 2 ^ 8 * 256 + x mod 256 = x"
    using shift_byte [of x 0] by simp
  have "be_val (PutUint32 v) =
      ((x div 2 ^ 24 mod 256 * 256 + x div 2 ^ 16 mod 256) * 256 + x div 2 ^ 8 mod 256) * 256
        + x mod 256"
    unfolding be_val_def PutUint32_def x_def
    using unat_byte_of [of 0 v] by (simp add: unat_byte_of)
  also have "\<dots> = x" by (simp only: e3 e2 e1 e0)
  finally show ?thesis by (simp add: x_def)
qed

lemma PutUint32_Uint32: "PutUint32 (Uint32 [a, b, c, d]) = [a, b, c, d]"
  unfolding Uint32_def PutUint32_def
  apply simp
  apply (intro conjI; rule bit_word_eqI)
     apply (auto simp add: bit_simps dest: bit_imp_le_length)
  done

lemma list4: "length xs = 4 \<Longrightarrow> \<exists>a b c d. xs = [a, b, c, d]"
  by (auto simp: length_Suc_conv numeral_eq_Suc)

lemma be_val_Uint32: "length hdr = 4 \<Longrightarrow> unat (Uint32 hdr) = be_val hdr"
proof -
  assume "length hdr = 4"
  then obtain a b c d where h: "hdr = [a, b, c, d]" using list4 by blast
  have "be_val (PutUint32 (Uint32 hdr)) = unat (Uint32 hdr)" by (rule be_val_PutUint32)
  then show ?thesis by (simp only: h PutUint32_Uint32)
qed

lemma sint_nonneg: "unat (w::int32) < 2 ^ 31 \<Longrightarrow> sint w = int (unat w)"
proof -
  assume "unat w < 2 ^ 31"
  then have "int (unat w) < int (2 ^ 31)" by (simp only: of_nat_less_iff)
  then have "uint w < 2 ^ 31" by simp
  moreover have "- (2 ^ 31) \<le> uint w"
    by (rule order_trans [of _ 0]) simp_all
  ultimately have "signed_take_bit 31 (uint w) = uint w"
    by (rule signed_take_bit_int_eq_self [rotated])
  then show ?thesis by (simp add: sint_uint)
qed

lemma read_short_header:
  "length (avail r) < 4 \<Longrightarrow> \<exists>e r'. read r = Ret (Inl e, r')"
  by (simp add: read_def ReadFull_def)

lemma read_frame:
  assumes "4 \<le> length (avail r)" and "be_val (take 4 (avail r)) < 2 ^ 31"
  shows "read r = (case ReadFull (r\<lparr>avail := drop 4 (avail r)\<rparr>) (be_val (take 4 (avail r))) of
            (Inl e, s2) \<Rightarrow> Ret (Inl e, s2) | (Inr buf, s2) \<Rightarrow> Ret (Inr buf, s2))"
proof -
  let ?hdr = "take 4 (avail r)"
  have len: "length ?hdr = 4" using assms(1) by simp
  have u: "unat (Uint32 ?hdr) = be_val ?hdr" using len by (rule be_val_Uint32)
  have "unat (Uint32 ?hdr) < 2 ^ 31" using assms(2) by (simp only: u)
  then have "sint (Uint32 ?hdr) = int (unat (Uint32 ?hdr))" by (rule sint_nonneg)
  then have si: "sint (Uint32 ?hdr) = int (be_val ?hdr)" by (simp only: u)
  have rf: "ReadFull r 4 = (Inr ?hdr, r\<lparr>avail := drop 4 (avail r)\<rparr>)"
    using assms(1) by (simp add: ReadFull_def)
  show ?thesis
    unfolding read_def rf by (simp add: si Let_def)
qed

lemma write_ok:
  "fst (write s buf) = None \<Longrightarrow>
   out (snd (write s buf)) = out s @ PutUint32 (of_nat (length buf)) @ buf"
  by (auto simp: write_def Write_def split: list.splits option.splits prod.splits)

lemma write_err_iff:
  "fst (write s buf) = None \<longleftrightarrow> set (take 2 (wres s)) \<subseteq> {None}"
  by (auto simp: write_def Write_def take_Suc_conv_app_nth numeral_2_eq_2
      split: list.splits option.splits prod.splits)

text \<open>
  C9, the input on which the claim fails: a length prefix with the top bit set is read
  as a negative \<open>int32\<close>, and \<open>make([]byte, size)\<close> panics; \<open>read\<close> neither reads that
  many bytes nor reports an error.
\<close>
theorem read_negative_size:
  "be_val [128, 0, 0, 0] = 2 ^ 31 \<and>
   read \<lparr>avail = [128, 0, 0, 0], fin = EOF\<rparr> = Panic ''makeslice: len out of range''"
  by (simp add: be_val_def read_def ReadFull_def Uint32_def)

text \<open>
  C9 as amended: \<open>write\<close> returns no error exactly when neither of its two writes to the
  stream fails, and it has then written a 4-byte prefix followed by the payload; the
  prefix is the big-endian value of the payload's length modulo \<open>2^32\<close>. \<open>read\<close>
  reports an error when fewer than four bytes arrive; when the prefix, read as a
  big-endian number, is below \<open>2^31\<close>, it returns exactly that many of the following
  bytes if they arrive and reports an error otherwise.
\<close>
theorem frame_codec:
  "(fst (write s buf) = None \<longleftrightarrow> set (take 2 (wres s)) \<subseteq> {None})
   \<and> (fst (write s buf) = None \<longrightarrow>
        out (snd (write s buf)) = out s @ PutUint32 (of_nat (length buf)) @ buf)
   \<and> length (PutUint32 (of_nat (length buf))) = 4
   \<and> be_val (PutUint32 (of_nat (length buf))) = length buf mod 2 ^ 32
   \<and> (length (avail r) < 4 \<longrightarrow> (\<exists>e r'. read r = Ret (Inl e, r')))
   \<and> (4 \<le> length (avail q) \<and> be_val (take 4 (avail q)) < 2 ^ 31 \<longrightarrow>
        (if 4 + be_val (take 4 (avail q)) \<le> length (avail q)
         then read q = Ret (Inr (take (be_val (take 4 (avail q))) (drop 4 (avail q))),
                            q\<lparr>avail := drop (4 + be_val (take 4 (avail q))) (avail q)\<rparr>)
         else (\<exists>e q'. read q = Ret (Inl e, q'))))"
proof (intro conjI impI)
  show "fst (write s buf) = None \<longleftrightarrow> set (take 2 (wres s)) \<subseteq> {None}"
    by (rule write_err_iff)
  show "out (snd (write s buf)) = out s @ PutUint32 (of_nat (length buf)) @ buf"
    if "fst (write s buf) = None" using that by (rule write_ok)
  show "length (PutUint32 (of_nat (length buf))) = 4"
    by (simp add: PutUint32_def)
  show "be_val (PutUint32 (of_nat (length buf))) = length buf mod 2 ^ 32"
    by (simp add: be_val_PutUint32 unat_of_nat)
  show "\<exists>e r'. read r = Ret (Inl e, r')" if "length (avail r) < 4"
    using that by (rule read_short_header)
next
  assume a: "4 \<le> length (avail q) \<and> be_val (take 4 (avail q)) < 2 ^ 31"
  let ?k = "be_val (take 4 (avail q))"
  have rd: "read q = (case ReadFull (q\<lparr>avail := drop 4 (avail q)\<rparr>) ?k of
            (Inl e, s2) \<Rightarrow> Ret (Inl e, s2) | (Inr b, s2) \<Rightarrow> Ret (Inr b, s2))"
    using a by (intro read_frame) simp_all
  show "if 4 + ?k \<le> length (avail q)
         then read q = Ret (Inr (take ?k (drop 4 (avail q))), q\<lparr>avail := drop (4 + ?k) (avail q)\<rparr>)
         else (\<exists>e q'. read q = Ret (Inl e, q'))"
  proof (cases "4 + ?k \<le> length (avail q)")
    case True
    then have "?k \<le> length (avail q) - 4" by simp
    with True show ?thesis
      unfolding rd by (simp add: ReadFull_def add.commute)
  next
    case False
    then have "?k \<noteq> 0" "\<not> ?k \<le> length (avail q) - 4" using a by auto
    then show ?thesis
      unfolding rd using False by (simp add: ReadFull_def)
  qed
qed

theorem frame_codec_witness:
  "fst (write \<lparr>out = [], wres = []\<rparr> [1, 2, 3]) = None
   \<and> out (snd (write \<lparr>out = [], wres = []\<rparr> [1, 2, 3])) = [0, 0, 0, 3, 1, 2, 3]
   \<and> length (avail \<lparr>avail = [0, 0], fin = EOF\<rparr>) < 4
   \<and> read \<lparr>avail = [0, 0], fin = EOF\<rparr> = Ret (Inl ErrUnexpectedEOF, \<lparr>avail = [], fin = EOF\<rparr>)
   \<and> be_val (take 4 [0, 0, 0, 2, 9, 8, 7]) < 2 ^ 31
   \<and> read \<lparr>avail = [0, 0, 0, 2, 9, 8, 7], fin = EOF\<rparr> = Ret (Inr [9, 8], \<lparr>avail = [7], fin = EOF\<rparr>)"
  using frame_codec [of "\<lparr>out = [], wres = []\<rparr>" "[1, 2, 3]" "\<lparr>avail = [0, 0], fin = EOF\<rparr>"
      "\<lparr>avail = [0, 0, 0, 2, 9, 8, 7], fin = EOF\<rparr>"]
  by (simp add: write_def Write_def PutUint32_def be_val_def read_def ReadFull_def Uint32_def)

subsection \<open>Flags of \<open>Wait\<close> and \<open>Walk\<close>\<close>

lemma call_handle: "call h t = Ret (x, h') \<Longrightarrow> h' = h\<lparr>h_calls := Suc (h_calls h)\<rparr>"
  by (auto simp: call_def Let_def split: prod.splits if_splits option.splits go.splits)

lemma deref_Ret: "deref p = Ret v \<longleftrightarrow> p = Some v"
  by (simp add: deref_def split: option.splits)

lemma Walk_loop_events:
  "Walk_loop h glob rv off lim info = Ret ((evs, None), h') \<Longrightarrow>
   \<exists>new. evs = info @ new \<and>
     (\<forall>i<length new. \<exists>t r hh.
        call (h\<lparr>h_calls := h_calls h + i\<rparr>) (Walk_txn glob rv (off + of_nat i))
          = Ret ((None, t), hh) \<and>
        t_resp t = Some r \<and>
        new ! i = \<lparr>ev_Rev = the (rs_Rev r), ev_Path = the (rs_Path r), ev_Body = rs_Value r,
                   ev_Flag = the (rs_Flags r)\<rparr> \<and> rs_Flags r \<noteq> None)"
proof (induction h glob rv off lim info arbitrary: evs h' rule: Walk_loop.induct)
  case (1 h glob rv off lim info)
  note res = "1.prems" [unfolded Walk_loop.simps [of h glob rv off lim info]]
  show ?case
  proof (cases "lim = 0")
    case True
    with res have "evs = info" by simp
    then show ?thesis by simp
  next
    case False
    show ?thesis
    proof (cases "call h (Walk_txn glob rv off)")
      case (Panic s)
      with res False show ?thesis by simp
    next
      case (Ret x)
      obtain e t h1 where x: "x = ((e, t), h1)" by (metis prod.exhaust)
      have h1: "h1 = h\<lparr>h_calls := Suc (h_calls h)\<rparr>"
        using Ret x call_handle by blast
      show ?thesis
      proof (cases "is_Error e ErrRange")
        case True
        with res False Ret x have "evs = info" by simp
        then show ?thesis by simp
      next
        case nr: False
        show ?thesis
        proof (cases "e = None")
          case False
          with res \<open>lim \<noteq> 0\<close> Ret x nr show ?thesis by simp
        next
          case True
          from res \<open>lim \<noteq> 0\<close> Ret x nr True
          obtain r v p f where r: "deref (t_resp t) = Ret r" and v: "deref (rs_Rev r) = Ret v"
            and p: "deref (rs_Path r) = Ret p" and f: "deref (rs_Flags r) = Ret f"
            and rec: "Walk_loop h1 glob rv (off + 1) (lim - 1)
                (info @ [\<lparr>ev_Rev = v, ev_Path = p, ev_Body = rs_Value r, ev_Flag = f\<rparr>])
                  = Ret ((evs, None), h')"
            by (auto split: go.splits)
          let ?ev = "\<lparr>ev_Rev = v, ev_Path = p, ev_Body = rs_Value r, ev_Flag = f\<rparr>"
          from "1.IH" [OF \<open>lim \<noteq> 0\<close> Ret x [symmetric] refl nr _ r v p f rec] True
          obtain new where new: "evs = (info @ [?ev]) @ new"
            and all: "\<forall>i<length new. \<exists>t r hh.
              call (h1\<lparr>h_calls := h_calls h1 + i\<rparr>) (Walk_txn glob rv (off + 1 + of_nat i))
                = Ret ((None, t), hh) \<and>
              t_resp t = Some r \<and>
              new ! i = \<lparr>ev_Rev = the (rs_Rev r), ev_Path = the (rs_Path r), ev_Body = rs_Value r,
                   ev_Flag = the (rs_Flags r)\<rparr> \<and> rs_Flags r \<noteq> None"
            by auto
          have "\<exists>t r hh.
              call (h\<lparr>h_calls := h_calls h + i\<rparr>) (Walk_txn glob rv (off + of_nat i))
                = Ret ((None, t), hh) \<and>
              t_resp t = Some r \<and>
              (?ev # new) ! i = \<lparr>ev_Rev = the (rs_Rev r), ev_Path = the (rs_Path r),
                   ev_Body = rs_Value r, ev_Flag = the (rs_Flags r)\<rparr> \<and> rs_Flags r \<noteq> None"
            if "i < length (?ev # new)" for i
          proof (cases i)
            case 0
            then show ?thesis
              using Ret x True r v p f by (auto simp: deref_Ret)
          next
            case (Suc j)
            with that have "j < length new" by simp
            with all obtain t r hh where
              "call (h1\<lparr>h_calls := h_calls h1 + j\<rparr>) (Walk_txn glob rv (off + 1 + of_nat j))
                 = Ret ((None, t), hh)"
              "t_resp t = Some r"
              "new ! j = \<lparr>ev_Rev = the (rs_Rev r), ev_Path = the (rs_Path r), ev_Body = rs_Value r,
                   ev_Flag = the (rs_Flags r)\<rparr> \<and> rs_Flags r \<noteq> None"
              by blast
            then show ?thesis
              using Suc h1 by (auto simp: ac_simps)
          qed
          then show ?thesis using new by (intro exI [of _ "?ev # new"]) simp
        qed
      qed
    qed
  qed
qed

lemma Wait_flag:
  assumes "Wait d h glob rv = Ret ((ev, None), h1)"
  shows "\<exists>t r f. call h (Wait_txn glob rv) = Ret ((None, t), h1) \<and> t_resp t = Some r \<and>
           rs_Flags r = Some f \<and> ev_Flag ev = f AND (flag_set d OR flag_del d)"
  using assms
  by (auto simp: Wait_def deref_def split: go.splits option.splits prod.splits)

lemma and_not_self: "(f AND m) AND NOT m = (0::int32)"
  by (simp add: bit_eq_iff bit_simps)

lemma Walk_one:
  assumes "rs_ErrCode r = None" "rs_Rev r = Some v" "rs_Path r = Some p" "rs_Flags r = Some f"
  shows "Walk \<lparr>h_addr = a, h_world = (\<lambda>k. (Conn0 a, answer r)), h_calls = 0\<rparr> glob rv off 1
     = Ret (([\<lparr>ev_Rev = v, ev_Path = p, ev_Body = rs_Value r, ev_Flag = f\<rparr>], None),
            \<lparr>h_addr = a, h_world = (\<lambda>k. (Conn0 a, answer r)), h_calls = 1\<rparr>)"
  unfolding Walk_def
  apply (subst Walk_loop.simps)
  apply (simp add: call_def Conn0_def Walk_txn_def txn0_def answer_def deref_def assms)
  apply (subst Walk_loop.simps)
  apply simp
  done

lemma ok_Wait: "Wait ex_decls ok_handle ''/*'' 0 =
    Ret ((\<lparr>ev_Rev = 7, ev_Path = ''/a'', ev_Body = [1], ev_Flag = 12\<rparr>, None),
         ok_handle\<lparr>h_calls := 1\<rparr>)"
  by (simp add: Wait_def call_def ok_handle_def ok_world_def Conn0_def Wait_txn_def txn0_def
      answer_def deref_def ok_resp_def ex_decls_def)

lemma ok_Walk: "Walk ok_handle ''/*'' 0 0 1 =
    Ret (([\<lparr>ev_Rev = 7, ev_Path = ''/a'', ev_Body = [1], ev_Flag = 255\<rparr>], None),
         ok_handle\<lparr>h_calls := 1\<rparr>)"
  unfolding ok_handle_def ok_world_def
  by (simp add: Walk_one ok_resp_def)

text \<open>
  C10: the event of a successful \<open>Wait\<close> carries the flags of the response with every
  bit but \<open>set\<close> and \<open>del\<close> cleared; every event of a successful \<open>Walk\<close> carries the
  flags of the response to its request as they are, and for every flag value \<open>g\<close> some
  server makes \<open>Walk\<close> return it.
\<close>
theorem Wait_masks_Walk_copies:
  "(Wait d h glob rv = Ret ((ev, None), h1) \<longrightarrow>
      (\<exists>t r f. call h (Wait_txn glob rv) = Ret ((None, t), h1) \<and> t_resp t = Some r \<and>
          rs_Flags r = Some f \<and> ev_Flag ev = f AND (flag_set d OR flag_del d)) \<and>
      ev_Flag ev AND NOT (flag_set d OR flag_del d) = 0)
   \<and> (Walk h glob rv off lim = Ret ((evs, None), h2) \<longrightarrow>
      (\<forall>i<length evs. \<exists>t r f hh.
          call (h\<lparr>h_calls := h_calls h + i\<rparr>) (Walk_txn glob rv (off + of_nat i))
            = Ret ((None, t), hh) \<and>
          t_resp t = Some r \<and> rs_Flags r = Some f \<and> ev_Flag (evs ! i) = f))
   \<and> (\<exists>w e h3. Walk \<lparr>h_addr = a, h_world = w, h_calls = 0\<rparr> glob rv off 1
          = Ret (([e], None), h3) \<and> ev_Flag e = g)"
proof (intro conjI impI)
  assume w: "Wait d h glob rv = Ret ((ev, None), h1)"
  from Wait_flag [OF w]
  show "\<exists>t r f. call h (Wait_txn glob rv) = Ret ((None, t), h1) \<and> t_resp t = Some r \<and>
          rs_Flags r = Some f \<and> ev_Flag ev = f AND (flag_set d OR flag_del d)" .
  from Wait_flag [OF w] obtain f where "ev_Flag ev = f AND (flag_set d OR flag_del d)"
    by blast
  then show "ev_Flag ev AND NOT (flag_set d OR flag_del d) = 0"
    by (simp only: and_not_self)
next
  assume "Walk h glob rv off lim = Ret ((evs, None), h2)"
  then have "Walk_loop h glob rv off lim [] = Ret ((evs, None), h2)" by (simp add: Walk_def)
  from Walk_loop_events [OF this]
  show "\<forall>i<length evs. \<exists>t r f hh.
          call (h\<lparr>h_calls := h_calls h + i\<rparr>) (Walk_txn glob rv (off + of_nat i))
            = Ret ((None, t), hh) \<and>
          t_resp t = Some r \<and> rs_Flags r = Some f \<and> ev_Flag (evs ! i) = f"
    by fastforce
next
  let ?r = "ok_resp\<lparr>rs_Flags := Some g\<rparr>"
  have "Walk \<lparr>h_addr = a, h_world = (\<lambda>k. (Conn0 a, answer ?r)), h_calls = 0\<rparr> glob rv off 1
     = Ret (([\<lparr>ev_Rev = 7, ev_Path = ''/a'', ev_Body = rs_Value ?r, ev_Flag = g\<rparr>], None),
            \<lparr>h_addr = a, h_world = (\<lambda>k. (Conn0 a, answer ?r)), h_calls = 1\<rparr>)"
    by (rule Walk_one) (simp_all add: ok_resp_def)
  then show "\<exists>w e h3. Walk \<lparr>h_addr = a, h_world = w, h_calls = 0\<rparr> glob rv off 1
          = Ret (([e], None), h3) \<and> ev_Flag e = g"
    by (metis Event.select_convs(4))
qed

theorem Wait_masks_Walk_copies_witness:
  "Wait ex_decls ok_handle ''/*'' 0 =
     Ret ((\<lparr>ev_Rev = 7, ev_Path = ''/a'', ev_Body = [1], ev_Flag = 12\<rparr>, None),
          ok_handle\<lparr>h_calls := 1\<rparr>)
   \<and> (12 :: int32) AND NOT (flag_set ex_decls OR flag_del ex_decls) = 0
   \<and> Walk ok_handle ''/*'' 0 0 1 =
     Ret (([\<lparr>ev_Rev = 7, ev_Path = ''/a'', ev_Body = [1], ev_Flag = 255\<rparr>], None),
          ok_handle\<lparr>h_calls := 1\<rparr>)
   \<and> rs_Flags ok_resp = Some 255"
  using Wait_masks_Walk_copies [of ex_decls ok_handle "''/*''" 0
      "\<lparr>ev_Rev = 7, ev_Path = ''/a'', ev_Body = [1], ev_Flag = 12\<rparr>" "ok_handle\<lparr>h_calls := 1\<rparr>" 0 1
      "[\<lparr>ev_Rev = 7, ev_Path = ''/a'', ev_Body = [1], ev_Flag = 255\<rparr>]" "ok_handle\<lparr>h_calls := 1\<rparr>"]
    ok_Wait ok_Walk
  by (simp add: ok_resp_def)

subsection \<open>Pagination\<close>

lemma later_0: "later h 0 = h"
  by (simp add: later_def)

lemma later_Suc: "later (h\<lparr>h_calls := Suc (h_calls h)\<rparr>) i = later h (Suc i)"
  by (simp add: later_def)

lemma reply_call:
  "reply h t = Some r \<Longrightarrow> \<exists>t'. call h t = Ret ((None, t'), h\<lparr>h_calls := Suc (h_calls h)\<rparr>) \<and> t_resp t' = Some r"
  unfolding reply_def
  by (auto split: go.splits prod.splits option.splits dest: call_handle)

lemma failure_call:
  "failure h t = Some e \<Longrightarrow> \<exists>t'. call h t = Ret ((Some e, t'), h\<lparr>h_calls := Suc (h_calls h)\<rparr>)"
  unfolding failure_def
  by (auto split: go.splits prod.splits option.splits dest: call_handle)

lemma unat_pred: "(lim :: go_int) \<noteq> 0 \<Longrightarrow> unat lim = Suc (unat (lim - 1))"
  by (simp add: unat_minus_one unat_gt_0)

lemma Getdir_loop_limit:
  assumes "\<forall>i<length ents. \<exists>r. reply (later h i) (Getdir_txn dirname rv (off + of_nat i)) = Some r
              \<and> rs_Path r = Some (ents ! i)"
    and "unat lim \<le> length ents"
  shows "Getdir_loop h dirname rv off lim acc = Ret ((acc @ take (unat lim) ents, None), later h (unat lim))"
  using assms
proof (induction ents arbitrary: h off lim acc)
  case Nil
  then have "lim = 0" by (simp add: unat_eq_0)
  then show ?case by (simp add: Getdir_loop.simps later_0)
next
  case (Cons x xs)
  show ?case
  proof (cases "lim = 0")
    case True
    then show ?thesis by (simp add: Getdir_loop.simps later_0)
  next
    case False
    let ?h1 = "h\<lparr>h_calls := Suc (h_calls h)\<rparr>"
    from Cons.prems(1) have "\<exists>r. reply (later h 0) (Getdir_txn dirname rv (off + of_nat 0)) = Some r
              \<and> rs_Path r = Some ((x # xs) ! 0)" by blast
    then obtain r where "reply h (Getdir_txn dirname rv off) = Some r" and p: "rs_Path r = Some x"
      by (auto simp: later_0)
    then obtain t' where c: "call h (Getdir_txn dirname rv off) = Ret ((None, t'), ?h1)"
      and t': "t_resp t' = Some r" using reply_call by blast
    have rest: "\<forall>i<length xs. \<exists>r. reply (later ?h1 i) (Getdir_txn dirname rv (off + 1 + of_nat i)) = Some r
              \<and> rs_Path r = Some (xs ! i)"
    proof (intro allI impI)
      fix i assume "i < length xs"
      then have "Suc i < length (x # xs)" by simp
      with Cons.prems(1) have "\<exists>r. reply (later h (Suc i)) (Getdir_txn dirname rv (off + of_nat (Suc i))) = Some r
              \<and> rs_Path r = Some ((x # xs) ! Suc i)" by blast
      then show "\<exists>r. reply (later ?h1 i) (Getdir_txn dirname rv (off + 1 + of_nat i)) = Some r
              \<and> rs_Path r = Some (xs ! i)"
        by (simp add: later_Suc ac_simps)
    qed
    have u: "unat lim = Suc (unat (lim - 1))" using False by (rule unat_pred)
    with Cons.prems(2) have le: "unat (lim - 1) \<le> length xs" by simp
    have "Getdir_loop h dirname rv off lim acc = Getdir_loop ?h1 dirname rv (off + 1) (lim - 1) (acc @ [x])"
      by (subst Getdir_loop.simps) (simp add: False c t' p deref_def)
    also have "\<dots> = Ret (((acc @ [x]) @ take (unat (lim - 1)) xs, None), later ?h1 (unat (lim - 1)))"
      using rest le by (rule Cons.IH)
    finally show ?thesis by (simp add: u later_Suc)
  qed
qed


lemma Getdir_loop_stop:
  assumes "\<forall>i<length ents. \<exists>r. reply (later h i) (Getdir_txn dirname rv (off + of_nat i)) = Some r
              \<and> rs_Path r = Some (ents ! i)"
    and "length ents < unat lim"
    and "failure (later h (length ents)) (Getdir_txn dirname rv (off + of_nat (length ents))) = Some e"
  shows "Getdir_loop h dirname rv off lim acc =
      Ret ((if is_Error (Some e) ErrRange then (acc @ ents, None) else ([], Some e)),
           later h (Suc (length ents)))"
  using assms
proof (induction ents arbitrary: h off lim acc)
  case Nil
  then have nz: "lim \<noteq> 0" by auto
  from Nil.prems(3) have "failure h (Getdir_txn dirname rv off) = Some e" by (simp add: later_0)
  then obtain t' where "call h (Getdir_txn dirname rv off) = Ret ((Some e, t'), h\<lparr>h_calls := Suc (h_calls h)\<rparr>)"
    using failure_call by blast
  then show ?case
    by (subst Getdir_loop.simps) (simp add: nz later_def)
next
  case (Cons x xs)
  from Cons.prems(2) have nz: "lim \<noteq> 0" by auto
  let ?h1 = "h\<lparr>h_calls := Suc (h_calls h)\<rparr>"
  from Cons.prems(1) have "\<exists>r. reply (later h 0) (Getdir_txn dirname rv (off + of_nat 0)) = Some r
            \<and> rs_Path r = Some ((x # xs) ! 0)" by blast
  then obtain r where "reply h (Getdir_txn dirname rv off) = Some r" and p: "rs_Path r = Some x"
    by (auto simp: later_0)
  then obtain t' where c: "call h (Getdir_txn dirname rv off) = Ret ((None, t'), ?h1)"
    and t': "t_resp t' = Some r" using reply_call by blast
  have rest: "\<forall>i<length xs. \<exists>r. reply (later ?h1 i) (Getdir_txn dirname rv (off + 1 + of_nat i)) = Some r
            \<and> rs_Path r = Some (xs ! i)"
  proof (intro allI impI)
    fix i assume "i < length xs"
    then have "Suc i < length (x # xs)" by simp
    with Cons.prems(1) have "\<exists>r. reply (later h (Suc i)) (Getdir_txn dirname rv (off + of_nat (Suc i))) = Some r
            \<and> rs_Path r = Some ((x # xs) ! Suc i)" by blast
    then show "\<exists>r. reply (later ?h1 i) (Getdir_txn dirname rv (off + 1 + of_nat i)) = Some r
            \<and> rs_Path r = Some (xs ! i)"
      by (simp add: later_Suc ac_simps)
  qed
  have u: "unat lim = Suc (unat (lim - 1))" using nz by (rule unat_pred)
  with Cons.prems(2) have lt: "length xs < unat (lim - 1)" by simp
  have f: "failure (later ?h1 (length xs)) (Getdir_txn dirname rv (off + 1 + of_nat (length xs))) = Some e"
    using Cons.prems(3) by (simp add: later_Suc ac_simps)
  have "Getdir_loop h dirname rv off lim acc = Getdir_loop ?h1 dirname rv (off + 1) (lim - 1) (acc @ [x])"
    by (subst Getdir_loop.simps) (simp add: nz c t' p deref_def)
  also have "\<dots> = Ret ((if is_Error (Some e) ErrRange then ((acc @ [x]) @ xs, None) else ([], Some e)),
           later ?h1 (Suc (length xs)))"
    using rest lt f by (rule Cons.IH)
  finally show ?case by (simp add: later_Suc)
qed

lemma Getdir_loop_bound:
  "Getdir_loop h dirname rv off lim acc = Ret ((names, e), h') \<Longrightarrow>
   \<not> is_Error e ErrRange \<and> (e = None \<longrightarrow> length names \<le> length acc + unat lim) \<and>
   (e \<noteq> None \<longrightarrow> names = [])"
proof (induction h dirname rv off lim acc arbitrary: names e h' rule: Getdir_loop.induct)
  case (1 h dirname rv off lim acc)
  note res = "1.prems" [unfolded Getdir_loop.simps [of h dirname rv off lim acc]]
  show ?case
  proof (cases "lim = 0")
    case True
    with res show ?thesis by auto
  next
    case False
    note u = unat_pred [OF False]
    show ?thesis
    proof (cases "call h (Getdir_txn dirname rv off)")
      case (Panic s)
      with res False show ?thesis by simp
    next
      case (Ret x)
      obtain e1 t h1 where x: "x = ((e1, t), h1)" by (metis prod.exhaust)
      show ?thesis
      proof (cases "is_Error e1 ErrRange")
        case True
        with res False Ret x show ?thesis by auto
      next
        case nr: False
        show ?thesis
        proof (cases "e1 = None")
          case False
          with res \<open>lim \<noteq> 0\<close> Ret x nr show ?thesis by auto
        next
          case True
          from res \<open>lim \<noteq> 0\<close> Ret x nr True
          obtain r p where r: "deref (t_resp t) = Ret r" and p: "deref (rs_Path r) = Ret p"
            and rec: "Getdir_loop h1 dirname rv (off + 1) (lim - 1) (acc @ [p]) = Ret ((names, e), h')"
            by (auto split: go.splits)
          from "1.IH" [OF \<open>lim \<noteq> 0\<close> Ret x [symmetric] refl nr _ r p rec] True
          show ?thesis using u by auto
        qed
      qed
    qed
  qed
qed

lemma Event_of_Some:
  "Event_of r = Some x \<Longrightarrow>
   \<exists>v p f. rs_Rev r = Some v \<and> rs_Path r = Some p \<and> rs_Flags r = Some f \<and>
     x = \<lparr>ev_Rev = v, ev_Path = p, ev_Body = rs_Value r, ev_Flag = f\<rparr>"
  by (auto simp: Event_of_def split: option.splits)

lemma Walk_loop_turn:
  assumes "reply h (Walk_txn glob rv off) = Some r" and "Event_of r = Some x" and "lim \<noteq> 0"
  shows "Walk_loop h glob rv off lim acc =
         Walk_loop (h\<lparr>h_calls := Suc (h_calls h)\<rparr>) glob rv (off + 1) (lim - 1) (acc @ [x])"
proof -
  from assms(1) obtain t' where c: "call h (Walk_txn glob rv off) = Ret ((None, t'), h\<lparr>h_calls := Suc (h_calls h)\<rparr>)"
    and t': "t_resp t' = Some r" using reply_call by blast
  from Event_of_Some [OF assms(2)] obtain v p f where
    "rs_Rev r = Some v" "rs_Path r = Some p" "rs_Flags r = Some f"
    "x = \<lparr>ev_Rev = v, ev_Path = p, ev_Body = rs_Value r, ev_Flag = f\<rparr>" by blast
  then show ?thesis
    by (subst Walk_loop.simps) (simp add: assms(3) c t' deref_def)
qed

lemma Walk_answers_tl:
  assumes "\<forall>i<length (x # xs). \<exists>r. reply (later h i) (Walk_txn glob rv (off + of_nat i)) = Some r
              \<and> Event_of r = Some ((x # xs) ! i)"
  shows "\<forall>i<length xs. \<exists>r. reply (later (h\<lparr>h_calls := Suc (h_calls h)\<rparr>) i)
              (Walk_txn glob rv (off + 1 + of_nat i)) = Some r \<and> Event_of r = Some (xs ! i)"
proof (intro allI impI)
  fix i assume "i < length xs"
  then have "Suc i < length (x # xs)" by simp
  with assms have "\<exists>r. reply (later h (Suc i)) (Walk_txn glob rv (off + of_nat (Suc i))) = Some r
          \<and> Event_of r = Some ((x # xs) ! Suc i)" by blast
  then show "\<exists>r. reply (later (h\<lparr>h_calls := Suc (h_calls h)\<rparr>) i)
              (Walk_txn glob rv (off + 1 + of_nat i)) = Some r \<and> Event_of r = Some (xs ! i)"
    by (simp add: later_Suc ac_simps)
qed

lemma Walk_answers_hd:
  assumes "\<forall>i<length (x # xs). \<exists>r. reply (later h i) (Walk_txn glob rv (off + of_nat i)) = Some r
              \<and> Event_of r = Some ((x # xs) ! i)"
  shows "\<exists>r. reply h (Walk_txn glob rv off) = Some r \<and> Event_of r = Some x"
proof -
  from assms have "\<exists>r. reply (later h 0) (Walk_txn glob rv (off + of_nat 0)) = Some r
          \<and> Event_of r = Some ((x # xs) ! 0)" by blast
  then show ?thesis by (simp add: later_0)
qed

lemma Walk_loop_limit:
  assumes "\<forall>i<length evs. \<exists>r. reply (later h i) (Walk_txn glob rv (off + of_nat i)) = Some r
              \<and> Event_of r = Some (evs ! i)"
    and "unat lim \<le> length evs"
  shows "Walk_loop h glob rv off lim acc = Ret ((acc @ take (unat lim) evs, None), later h (unat lim))"
  using assms
proof (induction evs arbitrary: h off lim acc)
  case Nil
  then have "lim = 0" by (simp add: unat_eq_0)
  then show ?case by (simp add: Walk_loop.simps later_0)
next
  case (Cons x xs)
  show ?case
  proof (cases "lim = 0")
    case True
    then show ?thesis by (simp add: Walk_loop.simps later_0)
  next
    case False
    let ?h1 = "h\<lparr>h_calls := Suc (h_calls h)\<rparr>"
    from Walk_answers_hd [OF Cons.prems(1)] obtain r
      where r: "reply h (Walk_txn glob rv off) = Some r" "Event_of r = Some x" by blast
    have u: "unat lim = Suc (unat (lim - 1))" using False by (rule unat_pred)
    with Cons.prems(2) have le: "unat (lim - 1) \<le> length xs" by simp
    have "Walk_loop h glob rv off lim acc = Walk_loop ?h1 glob rv (off + 1) (lim - 1) (acc @ [x])"
      using r False by (rule Walk_loop_turn)
    also have "\<dots> = Ret (((acc @ [x]) @ take (unat (lim - 1)) xs, None), later ?h1 (unat (lim - 1)))"
      using Walk_answers_tl [OF Cons.prems(1)] le by (rule Cons.IH)
    finally show ?thesis by (simp add: u later_Suc)
  qed
qed

lemma Walk_loop_stop:
  assumes "\<forall>i<length evs. \<exists>r. reply (later h i) (Walk_txn glob rv (off + of_nat i)) = Some r
              \<and> Event_of r = Some (evs ! i)"
    and "length evs < unat lim"
    and "failure (later h (length evs)) (Walk_txn glob rv (off + of_nat (length evs))) = Some e"
  shows "Walk_loop h glob rv off lim acc =
      Ret ((if is_Error (Some e) ErrRange then (acc @ evs, None) else ([], Some e)),
           later h (Suc (length evs)))"
  using assms
proof (induction evs arbitrary: h off lim acc)
  case Nil
  then have nz: "lim \<noteq> 0" by auto
  from Nil.prems(3) have "failure h (Walk_txn glob rv off) = Some e" by (simp add: later_0)
  then obtain t' where "call h (Walk_txn glob rv off) = Ret ((Some e, t'), h\<lparr>h_calls := Suc (h_calls h)\<rparr>)"
    using failure_call by blast
  then show ?case
    by (subst Walk_loop.simps) (simp add: nz later_def)
next
  case (Cons x xs)
  from Cons.prems(2) have nz: "lim \<noteq> 0" by auto
  let ?h1 = "h\<lparr>h_calls := Suc (h_calls h)\<rparr>"
  from Walk_answers_hd [OF Cons.prems(1)] obtain r
    where r: "reply h (Walk_txn glob rv off) = Some r" "Event_of r = Some x" by blast
  have u: "unat lim = Suc (unat (lim - 1))" using nz by (rule unat_pred)
  with Cons.prems(2) have lt: "length xs < unat (lim - 1)" by simp
  have f: "failure (later ?h1 (length xs)) (Walk_txn glob rv (off + 1 + of_nat (length xs))) = Some e"
    using Cons.prems(3) by (simp add: later_Suc ac_simps)
  have "Walk_loop h glob rv off lim acc = Walk_loop ?h1 glob rv (off + 1) (lim - 1) (acc @ [x])"
    using r nz by (rule Walk_loop_turn)
  also have "\<dots> = Ret ((if is_Error (Some e) ErrRange then ((acc @ [x]) @ xs, None) else ([], Some e)),
           later ?h1 (Suc (length xs)))"
    using Walk_answers_tl [OF Cons.prems(1)] lt f by (rule Cons.IH)
  finally show ?case by (simp add: later_Suc)
qed

lemma Walk_loop_bound:
  "Walk_loop h glob rv off lim acc = Ret ((evs, e), h') \<Longrightarrow>
   \<not> is_Error e ErrRange \<and> (e = None \<longrightarrow> length evs \<le> length acc + unat lim) \<and>
   (e \<noteq> None \<longrightarrow> evs = [])"
proof (induction h glob rv off lim acc arbitrary: evs e h' rule: Walk_loop.induct)
  case (1 h glob rv off lim acc)
  note res = "1.prems" [unfolded Walk_loop.simps [of h glob rv off lim acc]]
  show ?case
  proof (cases "lim = 0")
    case True
    with res show ?thesis by auto
  next
    case False
    note u = unat_pred [OF False]
    show ?thesis
    proof (cases "call h (Walk_txn glob rv off)")
      case (Panic s)
      with res False show ?thesis by simp
    next
      case (Ret x)
      obtain e1 t h1 where x: "x = ((e1, t), h1)" by (metis prod.exhaust)
      show ?thesis
      proof (cases "is_Error e1 ErrRange")
        case True
        with res False Ret x show ?thesis by auto
      next
        case nr: False
        show ?thesis
        proof (cases "e1 = None")
          case False
          with res \<open>lim \<noteq> 0\<close> Ret x nr show ?thesis by auto
        next
          case True
          from res \<open>lim \<noteq> 0\<close> Ret x nr True
          obtain r v p f where r: "deref (t_resp t) = Ret r" and v: "deref (rs_Rev r) = Ret v"
            and p: "deref (rs_Path r) = Ret p" and f: "deref (rs_Flags r) = Ret f"
            and rec: "Walk_loop h1 glob rv (off + 1) (lim - 1)
                (acc @ [\<lparr>ev_Rev = v, ev_Path = p, ev_Body = rs_Value r, ev_Flag = f\<rparr>])
                  = Ret ((evs, e), h')"
            by (auto split: go.splits)
          from "1.IH" [OF \<open>lim \<noteq> 0\<close> Ret x [symmetric] refl nr _ r v p f rec] True
          show ?thesis using u by auto
        qed
      qed
    qed
  qed
qed

lemma sint_go_int: "0 \<le> sint (w :: go_int) \<Longrightarrow> sint w = int (unat w)"
proof -
  assume a: "0 \<le> sint w"
  then have nb: "\<not> bit w 63" using bit_last_iff [of w] by simp
  then have "\<not> bit (uint w) 63" by (simp add: bit_uint_iff)
  then have "signed_take_bit 63 (uint w) = take_bit 63 (uint w)"
    by (rule signed_take_bit_eq_if_positive)
  moreover have "take_bit 63 (uint w) = uint w"
  proof -
    have "take_bit 63 w = w"
      by (rule bit_word_eqI) (use nb in \<open>auto simp: bit_take_bit_iff less_Suc_eq_le order_le_less numeral_eq_Suc\<close>)
    then have "uint (take_bit 63 w) = uint w" by simp
    then show ?thesis by (simp add: unsigned_take_bit_eq)
  qed
  ultimately show ?thesis by (simp add: sint_uint)
qed

lemma dir_reply:
  "i < length ents \<Longrightarrow> length ents < 2 ^ 32 \<Longrightarrow>
   reply (later (dir_handle ents after) i) (Getdir_txn dirname rv (of_nat i))
     = Some (ok_resp\<lparr>rs_Path := Some (ents ! i)\<rparr>)"
  by (simp add: reply_def later_def dir_handle_def call_def Conn0_def dir_server_def Getdir_txn_def
      txn0_def request0_def answer_def ok_resp_def unat_of_nat unsigned_ucast_eq take_bit_eq_mod)

lemma dir_reply_Walk:
  "i < length ents \<Longrightarrow> length ents < 2 ^ 32 \<Longrightarrow>
   reply (later (dir_handle ents after) i) (Walk_txn glob rv (of_nat i))
     = Some (ok_resp\<lparr>rs_Path := Some (ents ! i)\<rparr>)"
  by (simp add: reply_def later_def dir_handle_def call_def Conn0_def dir_server_def Walk_txn_def
      txn0_def request0_def answer_def ok_resp_def unat_of_nat unsigned_ucast_eq take_bit_eq_mod)

lemma dir_end_range:
  "length ents < 2 ^ 32 \<Longrightarrow>
   failure (later (dir_handle ents out_of_range) (length ents)) (Getdir_txn dirname rv (of_nat (length ents)))
     = Some (Error ErrRange []) \<and>
   failure (later (dir_handle ents out_of_range) (length ents)) (Walk_txn dirname rv (of_nat (length ents)))
     = Some (Error ErrRange [])"
  by (simp add: failure_def later_def dir_handle_def call_def Conn0_def dir_server_def Getdir_txn_def
      Walk_txn_def txn0_def request0_def answer_def ok_resp_def unat_of_nat unsigned_ucast_eq
      take_bit_eq_mod out_of_range_def newError_def)

lemma dir_end_broken:
  "length ents < 2 ^ 32 \<Longrightarrow>
   failure (later (dir_handle ents broken) (length ents)) (Getdir_txn dirname rv (of_nat (length ents)))
     = Some (ErrOther ''broken pipe'') \<and>
   failure (later (dir_handle ents broken) (length ents)) (Walk_txn dirname rv (of_nat (length ents)))
     = Some (ErrOther ''broken pipe'')"
  by (simp add: failure_def later_def dir_handle_def call_def Conn0_def dir_server_def Getdir_txn_def
      Walk_txn_def txn0_def request0_def unat_of_nat unsigned_ucast_eq
      take_bit_eq_mod broken_def)

text \<open>
  C6: when the calls of \<open>Getdir\<close> for the offsets \<open>off, off + 1, ...\<close> are answered
  with the entries \<open>ents\<close> and the call after them with an out-of-range error,
  \<open>Getdir\<close> with \<open>lim = -1\<close> returns exactly \<open>ents\<close> and no error; whatever the
  server does, \<open>Getdir\<close> returns at most \<open>lim\<close> entries and never an out-of-range
  error; an error other than out-of-range at a call within the limit ends the
  iteration and is returned. The same holds for \<open>Walk\<close> and its events. Both
  functions are total: they return or panic on every input.
\<close>
theorem pagination:
  "((\<forall>i<length ents. \<exists>r. reply (later h i) (Getdir_txn dirname rv (off + of_nat i)) = Some r
         \<and> rs_Path r = Some (ents ! i))
      \<and> failure (later h (length ents)) (Getdir_txn dirname rv (off + of_nat (length ents)))
            = Some (Error ErrRange dt)
      \<and> length ents < 2 ^ 64 - 1
      \<longrightarrow> Getdir h dirname rv off (- 1) = Ret ((ents, None), later h (Suc (length ents))))
   \<and> (Getdir h1 dirname1 rv1 off1 lim1 = Ret ((names, e), h')
      \<longrightarrow> length names \<le> unat lim1 \<and> (0 \<le> sint lim1 \<longrightarrow> int (length names) \<le> sint lim1)
          \<and> \<not> is_Error e ErrRange)
   \<and> ((\<forall>i<length ents2. \<exists>r. reply (later h2 i) (Getdir_txn dirname2 rv2 (off2 + of_nat i)) = Some r
         \<and> rs_Path r = Some (ents2 ! i))
      \<and> failure (later h2 (length ents2)) (Getdir_txn dirname2 rv2 (off2 + of_nat (length ents2)))
            = Some e2
      \<and> \<not> is_Error (Some e2) ErrRange \<and> length ents2 < unat lim2
      \<longrightarrow> Getdir h2 dirname2 rv2 off2 lim2 = Ret (([], Some e2), later h2 (Suc (length ents2))))
   \<and> ((\<forall>i<length evs. \<exists>r. reply (later g i) (Walk_txn glob rw (ofs + of_nat i)) = Some r
         \<and> Event_of r = Some (evs ! i))
      \<and> failure (later g (length evs)) (Walk_txn glob rw (ofs + of_nat (length evs)))
            = Some (Error ErrRange dw)
      \<and> length evs < 2 ^ 64 - 1
      \<longrightarrow> Walk g glob rw ofs (- 1) = Ret ((evs, None), later g (Suc (length evs))))
   \<and> (Walk g1 glob1 rw1 ofs1 lw1 = Ret ((info, ew), g')
      \<longrightarrow> length info \<le> unat lw1 \<and> (0 \<le> sint lw1 \<longrightarrow> int (length info) \<le> sint lw1)
          \<and> \<not> is_Error ew ErrRange)
   \<and> ((\<forall>i<length evs2. \<exists>r. reply (later g2 i) (Walk_txn glob2 rw2 (ofs2 + of_nat i)) = Some r
         \<and> Event_of r = Some (evs2 ! i))
      \<and> failure (later g2 (length evs2)) (Walk_txn glob2 rw2 (ofs2 + of_nat (length evs2)))
            = Some ew2
      \<and> \<not> is_Error (Some ew2) ErrRange \<and> length evs2 < unat lw2
      \<longrightarrow> Walk g2 glob2 rw2 ofs2 lw2 = Ret (([], Some ew2), later g2 (Suc (length evs2))))"
proof -
  have m1: "unat (- 1 :: go_int) = 2 ^ 64 - 1"
    by (simp add: unsigned_minus_1_eq_mask mask_eq_exp_minus_1)
  have G1: "Getdir h dirname rv off (- 1) = Ret ((ents, None), later h (Suc (length ents)))"
    if a: "\<forall>i<length ents. \<exists>r. reply (later h i) (Getdir_txn dirname rv (off + of_nat i)) = Some r
         \<and> rs_Path r = Some (ents ! i)"
      and f: "failure (later h (length ents)) (Getdir_txn dirname rv (off + of_nat (length ents)))
            = Some (Error ErrRange dt)"
      and n: "length ents < 2 ^ 64 - 1"
  proof -
    from n have "length ents < unat (- 1 :: go_int)" by (simp only: m1)
    from Getdir_loop_stop [OF a this f, of "[]"] show ?thesis by (simp add: Getdir_def)
  qed
  have G2: "length names \<le> unat lim1 \<and> (0 \<le> sint lim1 \<longrightarrow> int (length names) \<le> sint lim1)
          \<and> \<not> is_Error e ErrRange"
    if "Getdir h1 dirname1 rv1 off1 lim1 = Ret ((names, e), h')"
  proof -
    from that have "Getdir_loop h1 dirname1 rv1 off1 lim1 [] = Ret ((names, e), h')"
      by (simp add: Getdir_def)
    from Getdir_loop_bound [OF this] have b: "length names \<le> unat lim1" "\<not> is_Error e ErrRange"
      by auto
    have i: "int (length names) \<le> int (unat lim1)" using b(1) by (simp only: of_nat_le_iff)
    have "int (length names) \<le> sint lim1" if "0 \<le> sint lim1"
    proof -
      from that have "sint lim1 = int (unat lim1)" by (rule sint_go_int)
      with i show ?thesis by (simp only:)
    qed
    with b show ?thesis by blast
  qed
  have G3: "Getdir h2 dirname2 rv2 off2 lim2 = Ret (([], Some e2), later h2 (Suc (length ents2)))"
    if a: "\<forall>i<length ents2. \<exists>r. reply (later h2 i) (Getdir_txn dirname2 rv2 (off2 + of_nat i)) = Some r
         \<and> rs_Path r = Some (ents2 ! i)"
      and f: "failure (later h2 (length ents2)) (Getdir_txn dirname2 rv2 (off2 + of_nat (length ents2)))
            = Some e2"
      and nr: "\<not> is_Error (Some e2) ErrRange" and n: "length ents2 < unat lim2"
    using Getdir_loop_stop [OF a n f, of "[]"] nr by (simp add: Getdir_def)
  have W1: "Walk g glob rw ofs (- 1) = Ret ((evs, None), later g (Suc (length evs)))"
    if a: "\<forall>i<length evs. \<exists>r. reply (later g i) (Walk_txn glob rw (ofs + of_nat i)) = Some r
         \<and> Event_of r = Some (evs ! i)"
      and f: "failure (later g (length evs)) (Walk_txn glob rw (ofs + of_nat (length evs)))
            = Some (Error ErrRange dw)"
      and n: "length evs < 2 ^ 64 - 1"
  proof -
    from n have "length evs < unat (- 1 :: go_int)" by (simp only: m1)
    from Walk_loop_stop [OF a this f, of "[]"] show ?thesis by (simp add: Walk_def)
  qed
  have W2: "length info \<le> unat lw1 \<and> (0 \<le> sint lw1 \<longrightarrow> int (length info) \<le> sint lw1)
          \<and> \<not> is_Error ew ErrRange"
    if "Walk g1 glob1 rw1 ofs1 lw1 = Ret ((info, ew), g')"
  proof -
    from that have "Walk_loop g1 glob1 rw1 ofs1 lw1 [] = Ret ((info, ew), g')"
      by (simp add: Walk_def)
    from Walk_loop_bound [OF this] have b: "length info \<le> unat lw1" "\<not> is_Error ew ErrRange"
      by auto
    have i: "int (length info) \<le> int (unat lw1)" using b(1) by (simp only: of_nat_le_iff)
    have "int (length info) \<le> sint lw1" if "0 \<le> sint lw1"
    proof -
      from that have "sint lw1 = int (unat lw1)" by (rule sint_go_int)
      with i show ?thesis by (simp only:)
    qed
    with b show ?thesis by blast
  qed
  have W3: "Walk g2 glob2 rw2 ofs2 lw2 = Ret (([], Some ew2), later g2 (Suc (length evs2)))"
    if a: "\<forall>i<length evs2. \<exists>r. reply (later g2 i) (Walk_txn glob2 rw2 (ofs2 + of_nat i)) = Some r
         \<and> Event_of r = Some (evs2 ! i)"
      and f: "failure (later g2 (length evs2)) (Walk_txn glob2 rw2 (ofs2 + of_nat (length evs2)))
            = Some ew2"
      and nr: "\<not> is_Error (Some ew2) ErrRange" and n: "length evs2 < unat lw2"
    using Walk_loop_stop [OF a n f, of "[]"] nr by (simp add: Walk_def)
  from G1 G2 G3 W1 W2 W3 show ?thesis by blast
qed

lemma Event_of_ok: "Event_of (ok_resp\<lparr>rs_Path := Some p\<rparr>) = Some (ev_at p)"
  by (simp add: Event_of_def ok_resp_def ev_at_def)

lemma dir_answers:
  assumes "length ents < 2 ^ 32"
  shows "\<forall>i<length ents. \<exists>r. reply (later (dir_handle ents after) i)
            (Getdir_txn dirname rv (0 + of_nat i)) = Some r \<and> rs_Path r = Some (ents ! i)"
    and "\<forall>i<length (map ev_at ents). \<exists>r. reply (later (dir_handle ents after) i)
            (Walk_txn dirname rv (0 + of_nat i)) = Some r \<and> Event_of r = Some (map ev_at ents ! i)"
  using assms by (simp_all add: dir_reply dir_reply_Walk Event_of_ok)

theorem pagination_witness:
  "reply (dir_handle [''x'', ''y''] out_of_range) (Getdir_txn ''/d'' 3 0)
       = Some (ok_resp\<lparr>rs_Path := Some ''x''\<rparr>)
   \<and> reply (later (dir_handle [''x'', ''y''] out_of_range) 1) (Getdir_txn ''/d'' 3 1)
       = Some (ok_resp\<lparr>rs_Path := Some ''y''\<rparr>)
   \<and> failure (later (dir_handle [''x'', ''y''] out_of_range) 2) (Getdir_txn ''/d'' 3 2)
       = Some (Error ErrRange [])
   \<and> Getdir (dir_handle [''x'', ''y''] out_of_range) ''/d'' 3 0 (- 1)
       = Ret (([''x'', ''y''], None), later (dir_handle [''x'', ''y''] out_of_range) 3)
   \<and> Getdir (dir_handle [''x'', ''y''] out_of_range) ''/d'' 3 0 1
       = Ret (([''x''], None), later (dir_handle [''x'', ''y''] out_of_range) 1)
   \<and> length [''x''] \<le> unat (1 :: go_int)
   \<and> failure (later (dir_handle [''x'', ''y''] broken) 2) (Getdir_txn ''/d'' 3 2)
       = Some (ErrOther ''broken pipe'')
   \<and> Getdir (dir_handle [''x'', ''y''] broken) ''/d'' 3 0 5
       = Ret (([], Some (ErrOther ''broken pipe'')), later (dir_handle [''x'', ''y''] broken) 3)
   \<and> Walk (dir_handle [''x'', ''y''] out_of_range) ''/*'' 3 0 (- 1)
       = Ret (([ev_at ''x'', ev_at ''y''], None), later (dir_handle [''x'', ''y''] out_of_range) 3)
   \<and> Walk (dir_handle [''x'', ''y''] out_of_range) ''/*'' 3 0 1
       = Ret (([ev_at ''x''], None), later (dir_handle [''x'', ''y''] out_of_range) 1)
   \<and> Walk (dir_handle [''x'', ''y''] broken) ''/*'' 3 0 5
       = Ret (([], Some (ErrOther ''broken pipe'')), later (dir_handle [''x'', ''y''] broken) 3)"
proof -
  let ?e = "[''x'', ''y'']"
  let ?H = "dir_handle ?e out_of_range"
  let ?B = "dir_handle ?e broken"
  have len: "length ?e < 2 ^ 32" by simp
  note aG = dir_answers(1) [OF len] and aW = dir_answers(2) [OF len]
  have fR: "failure (later ?H (length ?e)) (Getdir_txn ''/d'' 3 (0 + of_nat (length ?e)))
        = Some (Error ErrRange [])"
      "failure (later ?H (length (map ev_at ?e))) (Walk_txn ''/*'' 3 (0 + of_nat (length (map ev_at ?e))))
        = Some (Error ErrRange [])"
    using dir_end_range [OF len] by simp_all
  have fB: "failure (later ?B (length ?e)) (Getdir_txn ''/d'' 3 (0 + of_nat (length ?e)))
        = Some (ErrOther ''broken pipe'')"
      "failure (later ?B (length (map ev_at ?e))) (Walk_txn ''/*'' 3 (0 + of_nat (length (map ev_at ?e))))
        = Some (ErrOther ''broken pipe'')"
    using dir_end_broken [OF len] by simp_all
  have r0: "reply ?H (Getdir_txn ''/d'' 3 0) = Some (ok_resp\<lparr>rs_Path := Some ''x''\<rparr>)"
    using dir_reply [of 0 ?e out_of_range "''/d''" 3] by (simp add: later_0)
  have r1: "reply (later ?H 1) (Getdir_txn ''/d'' 3 1) = Some (ok_resp\<lparr>rs_Path := Some ''y''\<rparr>)"
    using dir_reply [of 1 ?e out_of_range "''/d''" 3] by simp
  have G1: "Getdir ?H ''/d'' 3 0 1 = Ret (([''x''], None), later ?H 1)"
    using Getdir_loop_limit [OF aG [of out_of_range "''/d''" 3], of 1 "[]"] by (simp add: Getdir_def)
  have W1: "Walk ?H ''/*'' 3 0 1 = Ret (([ev_at ''x''], None), later ?H 1)"
    using Walk_loop_limit [OF aW [of out_of_range "''/*''" 3], of 1 "[]"] by (simp add: Walk_def)
  note P = pagination [where h = ?H and ents = ?e and dirname = "''/d''" and rv = 3 and off = 0
      and dt = "[]" and ?h1.0 = ?H and ?dirname1.0 = "''/d''" and ?rv1.0 = 3 and ?off1.0 = 0
      and ?lim1.0 = 1 and names = "[''x'']" and e = None and h' = "later ?H 1"
      and ?h2.0 = ?B and ?ents2.0 = ?e and ?dirname2.0 = "''/d''" and ?rv2.0 = 3 and ?off2.0 = 0
      and ?e2.0 = "ErrOther ''broken pipe''" and ?lim2.0 = 5
      and g = ?H and evs = "map ev_at ?e" and glob = "''/*''" and rw = 3 and ofs = 0 and dw = "[]"
      and ?g1.0 = ?H and ?glob1.0 = "''/*''" and ?rw1.0 = 3 and ?ofs1.0 = 0 and ?lw1.0 = 1
      and info = "[ev_at ''x'']" and ew = None and g' = "later ?H 1"
      and ?g2.0 = ?B and ?evs2.0 = "map ev_at ?e" and ?glob2.0 = "''/*''" and ?rw2.0 = 3
      and ?ofs2.0 = 0 and ?ew2.0 = "ErrOther ''broken pipe''" and ?lw2.0 = 5]
  have k1: "Getdir ?H ''/d'' 3 0 (- 1) = Ret ((?e, None), later ?H (Suc (length ?e)))"
    by (rule P [THEN conjunct1, THEN mp]) (intro conjI aG fR(1), simp)
  have k2: "length [''x''] \<le> unat (1 :: go_int)"
    using P [THEN conjunct2, THEN conjunct1, THEN mp, OF G1] by blast
  have k3: "Getdir ?B ''/d'' 3 0 5 = Ret (([], Some (ErrOther ''broken pipe'')), later ?B (Suc (length ?e)))"
    by (rule P [THEN conjunct2, THEN conjunct2, THEN conjunct1, THEN mp])
      (intro conjI aG fB(1), simp_all)
  have k4: "Walk ?H ''/*'' 3 0 (- 1) = Ret ((map ev_at ?e, None), later ?H (Suc (length (map ev_at ?e))))"
    by (rule P [THEN conjunct2, THEN conjunct2, THEN conjunct2, THEN conjunct1, THEN mp])
      (intro conjI aW fR(2), simp)
  have k5: "length [ev_at ''x''] \<le> unat (1 :: go_int)"
    using P [THEN conjunct2, THEN conjunct2, THEN conjunct2, THEN conjunct2, THEN conjunct1,
        THEN mp, OF W1] by blast
  have k6: "Walk ?B ''/*'' 3 0 5 = Ret (([], Some (ErrOther ''broken pipe'')),
      later ?B (Suc (length (map ev_at ?e))))"
    by (rule P [THEN conjunct2, THEN conjunct2, THEN conjunct2, THEN conjunct2, THEN conjunct2, THEN mp])
      (intro conjI aW fB(2), simp_all)
  from k1 k2 k3 k4 k5 k6 G1 W1 r0 r1 fR fB
  show ?thesis by (simp add: numeral_2_eq_2 numeral_3_eq_3)
qed

subsection \<open>Directory listings with metadata\<close>

lemma info_reply:
  "i < length ents \<Longrightarrow> length ents < 2 ^ 32 \<Longrightarrow>
   reply (later (info_handle ents bad) i) (Getdir_txn dirname rv (of_nat i))
     = Some (ok_resp\<lparr>rs_Path := Some (ents ! i)\<rparr>)"
  by (simp add: reply_def later_def info_handle_def info_server_def call_def Conn0_def dir_server_def
      Getdir_txn_def txn0_def request0_def answer_def ok_resp_def unat_of_nat unsigned_ucast_eq
      take_bit_eq_mod)

lemma info_end:
  "length ents < 2 ^ 32 \<Longrightarrow>
   failure (later (info_handle ents bad) (length ents))
     (Getdir_txn dirname rv (of_nat (length ents))) = Some (Error ErrRange [])"
  by (simp add: failure_def later_def info_handle_def info_server_def call_def Conn0_def
      dir_server_def Getdir_txn_def txn0_def request0_def answer_def ok_resp_def unat_of_nat
      unsigned_ucast_eq take_bit_eq_mod out_of_range_def newError_def)

lemma info_Getdir:
  assumes "length ents < 2 ^ 32"
  shows "Getdir (info_handle ents bad) dirname rv 0 (- 1)
     = Ret ((ents, None), later (info_handle ents bad) (Suc (length ents)))"
proof -
  have lt: "length ents < unat (- 1 :: go_int)"
    using assms by (simp add: unsigned_minus_1_eq_mask mask_eq_exp_minus_1)
  have a: "\<forall>i<length ents. \<exists>r. reply (later (info_handle ents bad) i)
      (Getdir_txn dirname rv (0 + of_nat i)) = Some r \<and> rs_Path r = Some (ents ! i)"
    using assms by (simp add: info_reply)
  have f: "failure (later (info_handle ents bad) (length ents))
      (Getdir_txn dirname rv (0 + of_nat (length ents))) = Some (Error ErrRange [])"
    using info_end [OF assms] by simp
  from Getdir_loop_stop [OF a lt f, of "[]"]
  show ?thesis by (simp add: Getdir_def)
qed

lemma info_Statinfo:
  "Statinfo ex_decls (later (info_handle ents bad) k) 3 (''/d/'' @ x) =
     Ret ((if x = bad then (None, Some (Error ErrNoEnt []))
           else (Some \<lparr>fi_Name = last_segment (''/d/'' @ x), fi_Len = 9, fi_Rev = 5, fi_IsSet = True,
                        fi_IsDir = False\<rparr>, None)),
          later (info_handle ents bad) (Suc k))"
  by (simp add: Statinfo_def Stat_def call_def later_def info_handle_def info_server_def Conn0_def
      txn0_def request0_def answer_def ok_resp_def ex_decls_def deref_def newError_def)

text \<open>
  C5, evaluated where the claim fails: in a directory whose only (hence last) child
  cannot be examined, \<open>Getdirinfo\<close> returns the entry with its name alone together
  with the error of \<open>Statinfo\<close>, because the loop leaves the error of the last child
  in the result \<open>err\<close>. When the child that fails is followed by one that succeeds,
  the listing comes back without an error.
\<close>
theorem Getdirinfo_last_child:
  "returned (Getdirinfo ex_decls (info_handle [''x''] ''x'') ''/d'' 3 0 (- 1)) =
     Some ([FileInfo0\<lparr>fi_Name := ''x''\<rparr>], Some (Error ErrNoEnt []))
   \<and> returned (Getdirinfo ex_decls (info_handle [''x'', ''y''] ''x'') ''/d'' 3 0 (- 1)) =
     Some ([FileInfo0\<lparr>fi_Name := ''x''\<rparr>,
            \<lparr>fi_Name = ''y'', fi_Len = 9, fi_Rev = 5, fi_IsSet = True, fi_IsDir = False\<rparr>], None)"
proof -
  have l1: "length [''x''] < 2 ^ 32" and l2: "length [''x'', ''y''] < 2 ^ 32" by simp_all
  note g1 = info_Getdir [OF l1, of "''x''" "''/d''" 3]
    and g2 = info_Getdir [OF l2, of "''x''" "''/d''" 3]
  show ?thesis
    by (simp add: Getdirinfo_def g1 g2 info_Statinfo [simplified] last_segment_def returned_def
        deref_def)
qed

subsection \<open>The contract of \<open>call\<close>\<close>

text \<open>
  C7: when \<open>stopped\<close> is closed as the call is made, \<open>call\<close> returns the error recorded
  on the handle and the transaction is not passed to the multiplexer; otherwise it
  returns the error the multiplexer recorded on the transaction if there is one, else
  the structured error made from the error code of the response if that is set, and
  else no error, with the response left on the transaction for the caller.
\<close>
theorem call_contract:
  "h_world h (h_calls h) = (c, mx) \<longrightarrow>
     (c_stopped c \<longrightarrow>
        call h t = Ret ((c_err c, t\<lparr>t_done := 0\<rparr>), h\<lparr>h_calls := Suc (h_calls h)\<rparr>))
     \<and> (\<not> c_stopped c \<and> t_err (mx (t\<lparr>t_done := 0\<rparr>)) \<noteq> None \<longrightarrow>
        call h t = Ret ((t_err (mx (t\<lparr>t_done := 0\<rparr>)), mx (t\<lparr>t_done := 0\<rparr>)),
                        h\<lparr>h_calls := Suc (h_calls h)\<rparr>))
     \<and> (\<not> c_stopped c \<and> t_err (mx (t\<lparr>t_done := 0\<rparr>)) = None
          \<and> t_resp (mx (t\<lparr>t_done := 0\<rparr>)) = Some r \<and> rs_ErrCode r = Some code \<longrightarrow>
        call h t = Ret ((Some (Error code (case rs_ErrDetail r of None \<Rightarrow> [] | Some d \<Rightarrow> d)),
                         mx (t\<lparr>t_done := 0\<rparr>)), h\<lparr>h_calls := Suc (h_calls h)\<rparr>)
        \<and> newError (mx (t\<lparr>t_done := 0\<rparr>))
            = Ret (Error code (case rs_ErrDetail r of None \<Rightarrow> [] | Some d \<Rightarrow> d)))
     \<and> (\<not> c_stopped c \<and> t_err (mx (t\<lparr>t_done := 0\<rparr>)) = None
          \<and> t_resp (mx (t\<lparr>t_done := 0\<rparr>)) = Some r \<and> rs_ErrCode r = None \<longrightarrow>
        call h t = Ret ((None, mx (t\<lparr>t_done := 0\<rparr>)), h\<lparr>h_calls := Suc (h_calls h)\<rparr>)
        \<and> reply h t = Some r)"
  by (auto simp: call_def reply_def newError_def Let_def)


theorem call_contract_witness:
  "c_stopped (fst (h_world closed_handle (h_calls closed_handle)))
   \<and> call closed_handle txn0 = Ret ((Some ErrClosed, txn0), closed_handle\<lparr>h_calls := 1\<rparr>)
   \<and> \<not> c_stopped (fst (h_world ok_handle (h_calls ok_handle)))
   \<and> call (dir_handle [] broken) txn0 =
       Ret ((Some (ErrOther ''broken pipe''), broken txn0), (dir_handle [] broken)\<lparr>h_calls := 1\<rparr>)
   \<and> call (dir_handle [] out_of_range) txn0 =
       Ret ((Some (Error ErrRange []), out_of_range txn0), (dir_handle [] out_of_range)\<lparr>h_calls := 1\<rparr>)
   \<and> call ok_handle txn0 = Ret ((None, answer ok_resp txn0), ok_handle\<lparr>h_calls := 1\<rparr>)
   \<and> reply ok_handle txn0 = Some ok_resp"
  using
    call_contract [of closed_handle "(Conn0 ''a:1'')\<lparr>c_err := Some ErrClosed, c_stopped := True\<rparr>"
      "answer ok_resp" txn0 ok_resp ErrRange]
    call_contract [of "dir_handle [] broken" "Conn0 ''a:1''" "dir_server [] broken" txn0 ok_resp ErrRange]
    call_contract [of "dir_handle [] out_of_range" "Conn0 ''a:1''" "dir_server [] out_of_range" txn0
      "ok_resp\<lparr>rs_ErrCode := Some ErrRange\<rparr>" ErrRange]
    call_contract [of ok_handle "Conn0 ''a:1''" "answer ok_resp" txn0 ok_resp ErrRange]
  by (simp add: closed_handle_def dir_handle_def ok_handle_def ok_world_def Conn0_def txn0_def
      request0_def dir_server_def broken_def out_of_range_def answer_def ok_resp_def)

subsection \<open>Cluster resolution\<close>

lemma noent_lookup:
  "lookup \<lparr>h_addr = a, h_world = (\<lambda>k. (Conn0 a, noent_server)), h_calls = 0\<rparr> ''foo'' =
     Ret (([], None), \<lparr>h_addr = a, h_world = (\<lambda>k. (Conn0 a, noent_server)), h_calls = 2\<rparr>)"
  by (simp add: lookup_def Rev_def Getdir_def Getdir_loop.simps [of _ _ _ _ "- 1"] call_def Conn0_def
      noent_server_def txn0_def request0_def Getdir_txn_def answer_def ok_resp_def deref_def
      newError_def)

text \<open>
  C4, evaluated where the claim fails: the bootstrap server has no directory
  \<open>/ctl/ns/foo\<close>, \<open>lookup\<close> returns no address and no error, and \<open>dialUri\<close> goes on to
  \<open>rand.Int() % len(addrs)\<close> with an empty list, which panics.
\<close>
theorem dialUri_no_addresses:
  "returned (lookup noent_handle ''foo'') = Some ([], None)
   \<and> dialUri ex_ParseQuery no_rand ''doozer:?cn=foo'' ''doozer:?ca=a:1'' noent_dial
       = Panic ''integer divide by zero''"
proof -
  have b: "dialUri ex_ParseQuery no_rand ''doozer:?ca=a:1'' [] noent_dial =
      Ret (Inr \<lparr>h_addr = ''a:1'', h_world = (\<lambda>k. (Conn0 ''a:1'', noent_server)), h_calls = 0\<rparr>, [])"
    by (subst dialUri.simps)
      (simp add: uriPrefix_def ex_ParseQuery_def dialUri_ca_def dialUri_pick_def dial_def
        noent_dial_def no_rand_def)
  show ?thesis
    by (subst dialUri.simps)
      (simp add: uriPrefix_def ex_ParseQuery_def b noent_lookup dialUri_pick_def returned_def
        noent_handle_def)
qed

subsection \<open>The multiplexer: tags\<close>

lemmas mux_eval = mux_def sys_step_def mux_step_def mux_send_def mux_msg_def mux_error_def
  mux_init_def Conn0_def fresh_def ok_Marshal_def bad_Marshal_def tag_Unmarshal_def
  table_get_def table_of_def sys_state_def txn_of_def tag_of_def txn0_def request0_def
  write_def Write_def Close_def ok_resp_def closes_def stopped_of_def err_of_def stop_of_def
  running_def exited_def

lemma table_get_update:
  "table_get (AList.update k v t) k' = (if k' = k then v else table_get t k')"
  by (simp add: table_get_def update_conv')

lemma table_get_delete:
  "table_get (AList.delete k t) k' = (if k' = k then None else table_get t k')"
  by (simp add: table_get_def delete_conv')

lemma mux_find_tag_first:
  "table_get txns (n + of_nat k) = None \<Longrightarrow>
   (\<forall>j<k. table_get txns (n + of_nat j) \<noteq> None) \<Longrightarrow>
   mux_find_tag txns n = Some (n + of_nat k)"
proof (induction k arbitrary: n)
  case 0
  then show ?case by (simp add: mux_find_tag.simps)
next
  case (Suc k)
  from Suc.prems(2) have used: "table_get txns n \<noteq> None" by fastforce
  have free: "table_get txns (n + 1 + of_nat k) = None"
    using Suc.prems(1) by (simp add: ac_simps)
  have before: "\<forall>j<k. table_get txns (n + 1 + of_nat j) \<noteq> None"
  proof (intro allI impI)
    fix j assume "j < k"
    then have "Suc j < Suc k" by simp
    with Suc.prems(2) have "table_get txns (n + of_nat (Suc j)) \<noteq> None" by blast
    then show "table_get txns (n + 1 + of_nat j) \<noteq> None" by (simp add: ac_simps)
  qed
  have "mux_find_tag txns n = mux_find_tag txns (n + 1)"
    using used by (subst mux_find_tag.simps) simp
  also have "\<dots> = Some (n + 1 + of_nat k)"
    using free before by (rule Suc.IH)
  finally show ?case by (simp add: ac_simps)
qed

lemma first_free:
  assumes "table_get txns t = None"
  shows "\<exists>k. table_get txns (n + of_nat k) = None \<and> (\<forall>j<k. table_get txns (n + of_nat j) \<noteq> None)"
proof -
  have "n + of_nat (unat (t - n)) = t" by simp
  with assms have "\<exists>k. table_get txns (n + of_nat k) = None" by metis
  then show ?thesis
    using exists_least_iff [of "\<lambda>k. table_get txns (n + of_nat k) = None"] by blast
qed

lemma table_has_free:
  assumes "length txns < 2 ^ 32"
  shows "\<exists>t. table_get txns t = None"
proof (rule ccontr)
  assume "\<not> (\<exists>t. table_get txns t = None)"
  then have "\<And>t. t \<in> fst ` set txns"
    by (auto simp: table_get_def map_of_eq_None_iff split: option.splits)
  then have "(UNIV :: int32 set) \<subseteq> fst ` set txns" by blast
  then have "card (UNIV :: int32 set) \<le> card (fst ` set txns)"
    by (intro card_mono) simp_all
  also have "\<dots> \<le> length txns"
    by (meson card_image_le card_length le_trans List.finite_set)
  finally show False using assms by (simp add: card_word)
qed

text \<open>
  C1, the input on which the claim fails: with the tags 0 and 1 assigned and the
  transaction of tag 0 completed, tag 0 is the lowest tag that is not in the table, and
  the next submission is given tag 2.
\<close>
theorem lowest_tag_counterexample:
  "table_get (table_of (mux ok_Marshal tag_Unmarshal fresh
       [act_mux (case_send 0), act_mux (case_send 1), act_mux (case_msg [0])])) 0 = None
   \<and> tag_of (mux ok_Marshal tag_Unmarshal fresh
       [act_mux (case_send 0), act_mux (case_send 1), act_mux (case_msg [0]),
        act_mux (case_send 2)]) 2 = Some 2"
  by (simp add: mux_eval mux_find_tag.simps)

text \<open>
  C1 as amended: the search for a tag starts at the tag assigned last (0 at the start),
  counts upwards with wrap-around and stops at the first tag under which the table
  holds no transaction; it ends whenever there is such a tag, as there is while the
  table has fewer than \<open>2^32\<close> entries. A submission that is encoded and written is
  stamped with that tag and recorded under it, the other tags keep their entries, and
  the search of the next submission starts there. The tag of a transaction that
  completes is free again once its response is delivered.
\<close>
theorem mux_assigns_next_free_tag:
  "(length (m_txns s) < 2 ^ 32 \<longrightarrow> (\<exists>t. table_get (m_txns s) t = None))
   \<and> ((\<exists>t. table_get (m_txns s) t = None) \<longrightarrow>
        (\<exists>k. mux_find_tag (m_txns s) (m_n s) = Some (m_n s + of_nat k)
           \<and> table_get (m_txns s) (m_n s + of_nat k) = None
           \<and> (\<forall>j<k. table_get (m_txns s) (m_n s + of_nat j) \<noteq> None)))
   \<and> (mux_find_tag (m_txns s) (m_n s) = Some g
        \<and> Marshal ((t_req (m_heap s p))\<lparr>rq_Tag := Some g\<rparr>) = Inr buf
        \<and> fst (write (c_conn (m_c s)) buf) = None \<longrightarrow>
        running (mux_send Marshal s p)
        \<and> tag_of (mux_send Marshal s p) p = Some g
        \<and> table_get (table_of (mux_send Marshal s p)) g = Some p
        \<and> (\<forall>t. t \<noteq> g \<longrightarrow> table_get (table_of (mux_send Marshal s p)) t = table_get (m_txns s) t)
        \<and> map_option m_n (sys_state (mux_send Marshal s p)) = Some g)
   \<and> (Unmarshal b = Inr r \<and> rs_Tag r = Some tg \<and> table_get (m_txns s) tg = Some q \<longrightarrow>
        table_get (table_of (mux_msg Unmarshal s b)) tg = None)"
proof (intro conjI impI)
  show "\<exists>t. table_get (m_txns s) t = None" if "length (m_txns s) < 2 ^ 32"
    using that by (rule table_has_free)
next
  assume "\<exists>t. table_get (m_txns s) t = None"
  then obtain t where "table_get (m_txns s) t = None" ..
  from first_free [OF this, of "m_n s"] obtain k
    where k: "table_get (m_txns s) (m_n s + of_nat k) = None"
      "\<forall>j<k. table_get (m_txns s) (m_n s + of_nat j) \<noteq> None" by blast
  from mux_find_tag_first [OF k] k
  show "\<exists>k. mux_find_tag (m_txns s) (m_n s) = Some (m_n s + of_nat k)
           \<and> table_get (m_txns s) (m_n s + of_nat k) = None
           \<and> (\<forall>j<k. table_get (m_txns s) (m_n s + of_nat j) \<noteq> None)" by blast
next
  assume a: "mux_find_tag (m_txns s) (m_n s) = Some g
        \<and> Marshal ((t_req (m_heap s p))\<lparr>rq_Tag := Some g\<rparr>) = Inr buf
        \<and> fst (write (c_conn (m_c s)) buf) = None"
  obtain o1 where w: "write (c_conn (m_c s)) buf = (None, o1)"
    using a by (cases "write (c_conn (m_c s)) buf") auto
  have r: "mux_send Marshal s p =
      Running (s\<lparr>m_c := (m_c s)\<lparr>c_conn := o1\<rparr>, m_txns := AList.update g (Some p) (m_txns s),
                 m_n := g, m_err := None,
                 m_heap := (m_heap s)(p := (m_heap s p)\<lparr>t_req := (t_req (m_heap s p))\<lparr>rq_Tag := Some g\<rparr>\<rparr>)\<rparr>)"
    using a w by (simp add: mux_send_def Let_def)
  show "running (mux_send Marshal s p)" by (simp add: r running_def)
  show "tag_of (mux_send Marshal s p) p = Some g"
    by (simp add: r tag_of_def txn_of_def sys_state_def)
  show "table_get (table_of (mux_send Marshal s p)) g = Some p"
    by (simp add: r table_of_def sys_state_def table_get_update)
  show "\<forall>t. t \<noteq> g \<longrightarrow> table_get (table_of (mux_send Marshal s p)) t = table_get (m_txns s) t"
    by (simp add: r table_of_def sys_state_def table_get_update)
  show "map_option m_n (sys_state (mux_send Marshal s p)) = Some g"
    by (simp add: r sys_state_def)
next
  assume "Unmarshal b = Inr r \<and> rs_Tag r = Some tg \<and> table_get (m_txns s) tg = Some q"
  then show "table_get (table_of (mux_msg Unmarshal s b)) tg = None"
    by (simp add: mux_msg_def table_of_def sys_state_def table_get_delete)
qed

theorem mux_assigns_next_free_tag_witness:
  "length (m_txns busy) < 2 ^ 32
   \<and> table_get (m_txns busy) 0 = None
   \<and> mux_find_tag (m_txns busy) (m_n busy) = Some 2
   \<and> ok_Marshal ((t_req (m_heap busy 2))\<lparr>rq_Tag := Some 2\<rparr>) = Inr [1]
   \<and> fst (write (c_conn (m_c busy)) [1]) = None
   \<and> tag_of (mux_send ok_Marshal busy 2) 2 = Some 2
   \<and> table_get (table_of (mux_send ok_Marshal busy 2)) 2 = Some 2
   \<and> table_get (table_of (mux_send ok_Marshal busy 2)) 1 = Some 1
   \<and> tag_Unmarshal [1] = Inr (ok_resp\<lparr>rs_Tag := Some 1\<rparr>)
   \<and> table_get (table_of (mux_msg tag_Unmarshal busy [1])) 1 = None"
  using mux_assigns_next_free_tag [of busy 2 ok_Marshal 2 "[1]" tag_Unmarshal "[1]"
      "ok_resp\<lparr>rs_Tag := Some 1\<rparr>" 1 1]
  by (simp add: busy_def mux_eval mux_find_tag.simps)

subsection \<open>The multiplexer: the terminal state and \<open>Close\<close>\<close>

lemma mux_fail_all_ok:
  "\<forall>(k, v)\<in>set txns. v \<noteq> None \<Longrightarrow>
   \<exists>hp'. mux_fail_all txns e hp = Ret hp' \<and>
     (\<forall>k p. (k, Some p) \<in> set txns \<longrightarrow> t_err (hp' p) = e \<and> t_done (hp p) < t_done (hp' p)) \<and>
     (\<forall>p. (\<forall>k. (k, Some p) \<notin> set txns) \<longrightarrow> hp' p = hp p)"
proof (induction txns arbitrary: hp)
  case Nil
  then show ?case by simp
next
  case (Cons a r)
  obtain k v where a: "a = (k, v)" by (cases a)
  with Cons.prems obtain p where v: "v = Some p" by auto
  let ?hp = "hp(p := (hp p)\<lparr>t_err := e, t_done := t_done (hp p) + 1\<rparr>)"
  from Cons.prems have "\<forall>(k, v)\<in>set r. v \<noteq> None" by simp
  from Cons.IH [OF this, of ?hp] obtain hp' where
    r: "mux_fail_all r e ?hp = Ret hp'"
    and f: "\<forall>k q. (k, Some q) \<in> set r \<longrightarrow> t_err (hp' q) = e \<and> t_done (?hp q) < t_done (hp' q)"
    and u: "\<forall>p. (\<forall>k. (k, Some p) \<notin> set r) \<longrightarrow> hp' p = ?hp p"
    by blast
  have "mux_fail_all (a # r) e hp = Ret hp'" using r by (simp add: a v)
  moreover have "t_err (hp' q) = e \<and> t_done (hp q) < t_done (hp' q)"
    if "(k', Some q) \<in> set (a # r)" for k' q
  proof (cases "\<exists>k. (k, Some q) \<in> set r")
    case True
    with f have "t_err (hp' q) = e" and "t_done (?hp q) < t_done (hp' q)" by blast+
    moreover have "t_done (hp q) \<le> t_done (?hp q)" by simp
    ultimately show ?thesis by simp
  next
    case False
    with that have "q = p" by (auto simp: a v)
    moreover from False u have "hp' q = ?hp q" by blast
    ultimately show ?thesis by simp
  qed
  moreover have "hp' q = hp q" if "\<forall>k. (k, Some q) \<notin> set (a # r)" for q
  proof -
    from that have "q \<noteq> p" "\<forall>k. (k, Some q) \<notin> set r" by (auto simp: a v)
    with u show ?thesis by simp
  qed
  ultimately show ?case by blast
qed

lemma mux_error_ok:
  assumes "\<forall>(k, v)\<in>set (m_txns s). v \<noteq> None" and "\<not> c_stopped (m_c s)"
  shows "\<exists>s'. mux_error s = Exited s' \<and> c_err (m_c s') = m_err s \<and>
      c_closed (m_c s') = c_closed (m_c s) + 1 \<and> c_stopped (m_c s') \<and>
      c_stop (m_c s') = c_stop (m_c s) \<and>
      (\<forall>k p. (k, Some p) \<in> set (m_txns s) \<longrightarrow>
          t_err (m_heap s' p) = m_err s \<and> t_done (m_heap s p) < t_done (m_heap s' p))"
proof -
  from mux_fail_all_ok [OF assms(1), of "m_err s" "m_heap s"] obtain hp' where
    "mux_fail_all (m_txns s) (m_err s) (m_heap s) = Ret hp'"
    "\<forall>k p. (k, Some p) \<in> set (m_txns s) \<longrightarrow>
        t_err (hp' p) = m_err s \<and> t_done (m_heap s p) < t_done (hp' p)"
    by blast
  then show ?thesis using assms(2) by (simp add: mux_error_def Let_def)
qed

lemma mux_error_cases:
  "\<not> c_stopped (m_c s) \<Longrightarrow>
   (\<exists>msg. mux_error s = Panicked msg) \<or>
   (\<exists>s'. mux_error s = Exited s' \<and> c_closed (m_c s') = c_closed (m_c s) + 1 \<and> c_stopped (m_c s')
      \<and> c_stop (m_c s') = c_stop (m_c s) \<and> c_err (m_c s') = m_err s)"
  by (auto simp: mux_error_def Let_def split: go.splits)

lemma conn_inv_error:
  assumes "c_stop (m_c s) \<le> 1" "c_closed (m_c s) = 0" "\<not> c_stopped (m_c s)" "m_err s \<noteq> None"
  shows "conn_inv (mux_error s)"
  using mux_error_cases [OF assms(3)] assms
  by (auto simp: conn_inv_def stop_of_def sys_state_def)

lemma mux_send_cases:
  "mux_send Marshal s p = Spinning s \<or>
   (\<exists>s'. mux_send Marshal s p = Running s' \<and> c_stop (m_c s') = c_stop (m_c s) \<and>
      c_closed (m_c s') = c_closed (m_c s) \<and> c_stopped (m_c s') = c_stopped (m_c s)) \<or>
   (\<exists>s'. mux_send Marshal s p = mux_error s' \<and> c_stop (m_c s') = c_stop (m_c s) \<and>
      c_closed (m_c s') = c_closed (m_c s) \<and> c_stopped (m_c s') = c_stopped (m_c s) \<and>
      m_err s' \<noteq> None)"
proof (cases "mux_find_tag (m_txns s) (m_n s)")
  case None
  then show ?thesis by (simp add: mux_send_def)
next
  case (Some n)
  let ?rq = "(t_req (m_heap s p))\<lparr>rq_Tag := Some n\<rparr>"
  show ?thesis
  proof (cases "Marshal ?rq")
    case (Inl e)
    with Some show ?thesis by (simp add: mux_send_def Let_def)
  next
    case (Inr buf)
    obtain r o1 where w: "write (c_conn (m_c s)) buf = (r, o1)" by (cases "write (c_conn (m_c s)) buf")
    show ?thesis
    proof (cases r)
      case None
      with Some Inr w show ?thesis by (simp add: mux_send_def Let_def)
    next
      case (Some e)
      let ?s' = "s\<lparr>m_c := (m_c s)\<lparr>c_conn := o1\<rparr>, m_txns := AList.update n (Some p) (m_txns s),
          m_n := n, m_err := Some e,
          m_heap := (m_heap s)(p := (m_heap s p)\<lparr>t_req := ?rq\<rparr>)\<rparr>"
      have "mux_send Marshal s p = mux_error ?s'"
        using \<open>mux_find_tag (m_txns s) (m_n s) = Some n\<close> Inr w Some
        by (simp add: mux_send_def Let_def)
      moreover have "c_stop (m_c ?s') = c_stop (m_c s) \<and> c_closed (m_c ?s') = c_closed (m_c s) \<and>
          c_stopped (m_c ?s') = c_stopped (m_c s) \<and> m_err ?s' \<noteq> None" by simp
      ultimately show ?thesis by blast
    qed
  qed
qed

lemma conn_inv_step:
  assumes "conn_inv y"
  shows "conn_inv (sys_step Marshal Unmarshal y a)"
proof (cases a)
  case act_Close
  with assms show ?thesis
    by (cases y) (auto simp: sys_step_def conn_inv_def Close_def stop_of_def sys_state_def)
next
  case (act_mux ev)
  show ?thesis
  proof (cases y)
    case (Running s)
    with assms have s: "c_stop (m_c s) \<le> 1" "c_closed (m_c s) = 0" "\<not> c_stopped (m_c s)"
      by (auto simp: conn_inv_def stop_of_def sys_state_def)
    show ?thesis
    proof (cases ev)
      case (case_send p)
      from mux_send_cases [of Marshal s p] consider
          (spin) "mux_send Marshal s p = Spinning s"
        | (run) s' where "mux_send Marshal s p = Running s'" "c_stop (m_c s') = c_stop (m_c s)"
            "c_closed (m_c s') = c_closed (m_c s)" "c_stopped (m_c s') = c_stopped (m_c s)"
        | (fail) s' where "mux_send Marshal s p = mux_error s'" "c_stop (m_c s') = c_stop (m_c s)"
            "c_closed (m_c s') = c_closed (m_c s)" "c_stopped (m_c s') = c_stopped (m_c s)"
            "m_err s' \<noteq> None"
        by blast
      then have "conn_inv (mux_send Marshal s p)"
      proof cases
        case spin
        with s show ?thesis by (simp add: conn_inv_def stop_of_def sys_state_def)
      next
        case run
        with s show ?thesis by (simp add: conn_inv_def stop_of_def sys_state_def)
      next
        case fail
        with s have "conn_inv (mux_error s')" by (intro conn_inv_error) simp_all
        with fail show ?thesis by simp
      qed
      then show ?thesis by (simp add: act_mux Running case_send sys_step_def mux_step_def)
    next
      case (case_msg buf)
      have "conn_inv (mux_msg Unmarshal s buf)"
        unfolding mux_msg_def using s
        by (auto simp: conn_inv_def stop_of_def sys_state_def split: option.splits sum.splits)
      then show ?thesis by (simp add: act_mux Running case_msg sys_step_def mux_step_def)
    next
      case (case_errch e)
      have "conn_inv (mux_error (s\<lparr>m_err := Some e\<rparr>))"
        using s by (intro conn_inv_error) simp_all
      then show ?thesis by (simp add: act_mux Running case_errch sys_step_def mux_step_def)
    next
      case case_stop
      have "conn_inv (mux_error (s\<lparr>m_c := (m_c s)\<lparr>c_stop := c_stop (m_c s) - 1\<rparr>,
                            m_err := Some ErrClosed\<rparr>))"
        using s by (intro conn_inv_error) simp_all
      then show ?thesis
        using assms by (simp add: act_mux Running case_stop sys_step_def mux_step_def)
    qed
  qed (use assms act_mux in \<open>simp_all add: sys_step_def\<close>)
qed

lemma conn_inv_mux: "conn_inv y \<Longrightarrow> conn_inv (mux Marshal Unmarshal y as)"
  unfolding mux_def
  by (induction as arbitrary: y) (simp_all add: conn_inv_step)

lemma Close_twice: "Close (Close c) = Close c"
  by (simp add: Close_def)

lemma sys_Close_twice:
  "sys_step Marshal Unmarshal (sys_step Marshal Unmarshal y act_Close) act_Close
     = sys_step Marshal Unmarshal y act_Close"
  by (cases y) (simp_all add: sys_step_def Close_def)

lemma mux_Close_many:
  "mux Marshal Unmarshal y (replicate (Suc k) act_Close @ as) = mux Marshal Unmarshal y (act_Close # as)"
  unfolding mux_def
  by (induction k arbitrary: y) (simp_all add: sys_Close_twice)

lemma call_after_exit:
  assumes "h_world h (h_calls h) = (c, mx)" and "c_stopped c"
  shows "call h t = Ret ((c_err c, t\<lparr>t_done := 0\<rparr>), h\<lparr>h_calls := Suc (h_calls h)\<rparr>)"
  using assms by (simp add: call_def)

text \<open>
  The terminal transition on a table that holds only transactions: the error is
  recorded, every transaction of the table is failed with it and sent a value on its
  \<open>done\<close>, the stream
  is closed, \<open>stopped\<close> is closed, and every later call returns the recorded error.
\<close>
lemma terminal_broadcast:
  assumes "\<forall>(k, v)\<in>set (m_txns s). v \<noteq> None" and "\<not> c_stopped (m_c s)"
  shows "\<exists>s'. mux_error s = Exited s' \<and> c_err (m_c s') = m_err s \<and>
      c_closed (m_c s') = c_closed (m_c s) + 1 \<and> c_stopped (m_c s') \<and>
      (\<forall>k p. (k, Some p) \<in> set (m_txns s) \<longrightarrow>
          t_err (m_heap s' p) = m_err s \<and> t_done (m_heap s p) < t_done (m_heap s' p)) \<and>
      (\<forall>h mx t. h_world h (h_calls h) = (m_c s', mx) \<longrightarrow>
          call h t = Ret ((m_err s, t\<lparr>t_done := 0\<rparr>), h\<lparr>h_calls := Suc (h_calls h)\<rparr>))"
proof -
  from mux_error_ok [OF assms] obtain s' where s': "mux_error s = Exited s'"
    "c_err (m_c s') = m_err s" "c_closed (m_c s') = c_closed (m_c s) + 1" "c_stopped (m_c s')"
    "\<forall>k p. (k, Some p) \<in> set (m_txns s) \<longrightarrow>
          t_err (m_heap s' p) = m_err s \<and> t_done (m_heap s p) < t_done (m_heap s' p)"
    by blast
  have "call h t = Ret ((m_err s, t\<lparr>t_done := 0\<rparr>), h\<lparr>h_calls := Suc (h_calls h)\<rparr>)"
    if "h_world h (h_calls h) = (m_c s', mx)" for h mx t
    using call_after_exit [OF that s'(4), of t] s'(2) by simp
  with s' show ?thesis by blast
qed

text \<open>
  C3, evaluated where the claim fails: after a submission whose request cannot be
  encoded, the caller has the error and its signal and the multiplexer runs on, but the
  table still has the key of the tag, with a nil pointer (\<open>txns[n] = nil\<close> where the
  delivery of a response uses \<open>delete\<close>).
\<close>
theorem encode_failure_leaves_nil:
  "running (mux bad_Marshal tag_Unmarshal fresh [act_mux (case_send 0)])
   \<and> table_of (mux bad_Marshal tag_Unmarshal fresh [act_mux (case_send 0)]) = [(0, None)]
   \<and> map_option t_err (txn_of (mux bad_Marshal tag_Unmarshal fresh [act_mux (case_send 0)]) 0)
       = Some (Some (ErrOther ''marshal''))
   \<and> map_option t_done (txn_of (mux bad_Marshal tag_Unmarshal fresh [act_mux (case_send 0)]) 0)
       = Some 1"
  by (simp add: mux_eval mux_find_tag.simps)

text \<open>
  C2, evaluated where the claim fails: when the table holds the nil pointer that a
  failed encoding left, the loop over the table in the terminal transition dereferences
  it and the goroutine panics before the stream and \<open>stopped\<close> are closed.
\<close>
theorem terminal_state_panics:
  "mux bad_Marshal tag_Unmarshal fresh [act_mux (case_send 0), act_Close, act_mux case_stop]
     = Panicked ''nil pointer dereference''"
  by (simp add: mux_eval mux_find_tag.simps)

text \<open>
  What holds of \<open>Close\<close> on every connection: it is a send that is dropped when a value
  already waits in \<open>stop\<close>, so it changes nothing but that buffer, which never holds
  more than one value, and a second \<open>Close\<close> changes nothing at all. However the calls
  of \<open>Close\<close> and the turns of the multiplexer follow each other on a connection fresh
  from \<open>dial\<close>, the stream is closed at most once, and it has been closed once, with
  \<open>stopped\<close> closed and an error recorded, when the multiplexer has returned. Any
  number of calls of \<open>Close\<close> in a row act as one. When the table holds only
  transactions, the multiplexer that then receives from \<open>stop\<close> fails each of them
  with \<open>ErrClosed\<close>, sends on its \<open>done\<close>, closes the stream once and returns.
\<close>
lemma Close_requests_once:
  "Close (Close c) = Close c
   \<and> (c_stop c \<le> 1 \<longrightarrow> c_stop (Close c) = 1)
   \<and> (Close c)\<lparr>c_stop := c_stop c\<rparr> = c
   \<and> closes (mux Marshal Unmarshal (Running (mux_init (Conn0 a) hp)) as) \<le> 1
   \<and> stop_of (mux Marshal Unmarshal (Running (mux_init (Conn0 a) hp)) as) \<le> 1
   \<and> (exited (mux Marshal Unmarshal (Running (mux_init (Conn0 a) hp)) as) \<longrightarrow>
        closes (mux Marshal Unmarshal (Running (mux_init (Conn0 a) hp)) as) = 1
        \<and> stopped_of (mux Marshal Unmarshal (Running (mux_init (Conn0 a) hp)) as)
        \<and> err_of (mux Marshal Unmarshal (Running (mux_init (Conn0 a) hp)) as) \<noteq> None)
   \<and> mux Marshal Unmarshal y (replicate (Suc k) act_Close @ bs)
        = mux Marshal Unmarshal y (act_Close # bs)"
proof -
  let ?y = "mux Marshal Unmarshal (Running (mux_init (Conn0 a) hp)) as"
  have "conn_inv (Running (mux_init (Conn0 a) hp))"
    by (simp add: conn_inv_def mux_init_def Conn0_def stop_of_def sys_state_def)
  then have inv: "conn_inv ?y" by (rule conn_inv_mux)
  have c1: "Close (Close c) = Close c" by (rule Close_twice)
  have c2: "c_stop c \<le> 1 \<longrightarrow> c_stop (Close c) = 1" by (simp add: Close_def)
  have c3: "(Close c)\<lparr>c_stop := c_stop c\<rparr> = c" by (simp add: Close_def)
  have i1: "closes ?y \<le> 1" and i2: "stop_of ?y \<le> 1"
    using inv by (cases ?y; simp add: conn_inv_def closes_def sys_state_def)+
  have i3: "exited ?y \<longrightarrow> closes ?y = 1 \<and> stopped_of ?y \<and> err_of ?y \<noteq> None"
    using inv
    by (cases ?y) (simp_all add: conn_inv_def closes_def stopped_of_def err_of_def sys_state_def exited_def)
  have m: "mux Marshal Unmarshal y (replicate (Suc k) act_Close @ bs)
        = mux Marshal Unmarshal y (act_Close # bs)" by (rule mux_Close_many)
  from c1 c2 c3 i1 i2 i3 m show ?thesis by blast
qed

lemma Close_then_stop:
  assumes "\<forall>(t, v)\<in>set (m_txns s). v \<noteq> None" and "\<not> c_stopped (m_c s)"
  shows "\<exists>s'. mux Marshal Unmarshal (Running s) (replicate (Suc k) act_Close @ [act_mux case_stop])
        = Exited s'
      \<and> c_err (m_c s') = Some ErrClosed \<and> c_closed (m_c s') = c_closed (m_c s) + 1
      \<and> c_stopped (m_c s')
      \<and> (\<forall>t p. (t, Some p) \<in> set (m_txns s) \<longrightarrow>
            t_err (m_heap s' p) = Some ErrClosed \<and> t_done (m_heap s p) < t_done (m_heap s' p))"
proof -
  let ?s1 = "s\<lparr>m_c := Close (m_c s)\<rparr>"
  let ?s2 = "?s1\<lparr>m_c := (m_c ?s1)\<lparr>c_stop := c_stop (m_c ?s1) - 1\<rparr>, m_err := Some ErrClosed\<rparr>"
  have pos: "c_stop (m_c ?s1) \<noteq> 0" by (simp add: Close_def)
  have "mux Marshal Unmarshal (Running s) (replicate (Suc k) act_Close @ [act_mux case_stop])
      = mux Marshal Unmarshal (Running s) [act_Close, act_mux case_stop]"
    by (rule mux_Close_many)
  also have "\<dots> = mux_error ?s2"
    using pos by (simp add: mux_def sys_step_def mux_step_def)
  finally have e: "mux Marshal Unmarshal (Running s) (replicate (Suc k) act_Close @ [act_mux case_stop])
      = mux_error ?s2" .
  have "\<forall>(k, v)\<in>set (m_txns ?s2). v \<noteq> None" "\<not> c_stopped (m_c ?s2)"
    using assms by (simp_all add: Close_def)
  from mux_error_ok [OF this] obtain s' where s': "mux_error ?s2 = Exited s'"
    "c_err (m_c s') = m_err ?s2" "c_closed (m_c s') = c_closed (m_c ?s2) + 1" "c_stopped (m_c s')"
    "\<forall>k p. (k, Some p) \<in> set (m_txns ?s2) \<longrightarrow>
        t_err (m_heap s' p) = m_err ?s2 \<and> t_done (m_heap ?s2 p) < t_done (m_heap s' p)"
    by blast
  have "c_closed (m_c ?s2) = c_closed (m_c s)" by (simp add: Close_def)
  with s' show ?thesis unfolding e by simp
qed

text \<open>
  C8, evaluated where the claim fails: a submission that could not be encoded has left
  a nil pointer in the table; two calls of \<open>Close\<close> put one value into \<open>stop\<close> and
  return, and the multiplexer that receives it panics in the loop over the table. No
  transaction is failed, the stream is not closed and \<open>stopped\<close> stays open: the
  calls of \<open>Close\<close> are followed by no terminal transition instead of one, and a
  later \<open>Close\<close> changes nothing of that.
\<close>
theorem Close_without_broadcast:
  "running (mux bad_Marshal tag_Unmarshal fresh [act_mux (case_send 0), act_Close, act_Close])
   \<and> stop_of (mux bad_Marshal tag_Unmarshal fresh
         [act_mux (case_send 0), act_Close, act_Close]) = 1
   \<and> closes (mux bad_Marshal tag_Unmarshal fresh
         [act_mux (case_send 0), act_Close, act_Close]) = 0
   \<and> mux bad_Marshal tag_Unmarshal fresh
         [act_mux (case_send 0), act_Close, act_Close, act_mux case_stop]
       = Panicked ''nil pointer dereference''
   \<and> mux bad_Marshal tag_Unmarshal fresh
         [act_mux (case_send 0), act_Close, act_Close, act_mux case_stop, act_Close]
       = Panicked ''nil pointer dereference''"
  by (simp add: mux_eval mux_find_tag.simps)

end
